theory Spec2Isabelle
  imports Main "HOL-Library.Sublist" "HOL-Library.AList" "HOL-Library.Char_ord"
    "HOL-Library.List_Lexorder"
begin

section \<open>The file system and the process the class runs in\<close>

text \<open>
  \<^verbatim>\<open>load.py\<close> defines one class, \<^verbatim>\<open>directories\<close>, whose methods call \<^verbatim>\<open>os\<close>,
  \<^verbatim>\<open>os.path\<close>, \<^verbatim>\<open>shutil\<close>, \<^verbatim>\<open>json\<close>, \<^verbatim>\<open>pickle\<close> and \<^verbatim>\<open>pandas\<close>. The file
  system is a tree: a directory holds an association list from names to nodes, and the
  order of that list is the order in which \<^verbatim>\<open>os.listdir\<close> and \<^verbatim>\<open>os.walk\<close> report the
  entries. A path is the list of its components from the root; a path string handed to a
  method is taken in parsed form, absolute or relative to the working directory of the
  process. A name is one component. Symbolic links, the entries \<^verbatim>\<open>.\<close> and \<^verbatim>\<open>..\<close> and
  access permissions are outside the model.
\<close>

type_synonym name = string
type_synonym path = "name list"

datatype upath = Abs path | Rel path

record stat_result =
  st_mode :: nat
  st_size :: nat
  st_mtime :: int

datatype node = File stat_result string | Dir stat_result "(name \<times> node) list"

datatype error =
    FileNotFoundError
  | FileExistsError
  | NotADirectoryError
  | IsADirectoryError
  | ValueError
  | TypeError
  | DecodeError
  | ShutilError

text \<open>
  The process: the root of the file system, the working directory (\<^verbatim>\<open>os.getcwd()\<close>),
  the value of \<^verbatim>\<open>HOME\<close>, the attributes the operating system gives an entry it
  creates or writes anew, and the lines written to standard output (\<^verbatim>\<open>print\<close> and
  \<^verbatim>\<open>tqdm.tqdm.write\<close>).
\<close>

record world =
  fs :: node
  pcwd :: path
  environ_HOME :: "string option"
  fresh :: stat_result
  stdout :: "string list"

fun fs_lookup :: "node \<Rightarrow> path \<Rightarrow> node option" where
  "fs_lookup nd [] = Some nd"
| "fs_lookup (File st c) (n # p) = None"
| "fs_lookup (Dir st es) (n # p) =
     (case map_of es n of None \<Rightarrow> None | Some c \<Rightarrow> fs_lookup c p)"

text \<open>
  \<open>fs_put nd p x\<close> stores \<open>x\<close> at \<open>p\<close>: it replaces the entry in place or appends a
  new one to the listing of the parent; where the parent is no directory nothing
  changes (the callers check that first).
\<close>

fun fs_put :: "node \<Rightarrow> path \<Rightarrow> node \<Rightarrow> node" where
  "fs_put nd [] x = x"
| "fs_put (File st c) (n # p) x = File st c"
| "fs_put (Dir st es) (n # p) x =
     (case map_of es n of
        None \<Rightarrow> if p = [] then Dir st (es @ [(n, x)]) else Dir st es
      | Some c \<Rightarrow> Dir st (AList.update n (fs_put c p x) es))"

fun is_dir :: "node \<Rightarrow> bool" where
  "is_dir (Dir st es) = True"
| "is_dir (File st c) = False"

fun is_file :: "node \<Rightarrow> bool" where
  "is_file (File st c) = True"
| "is_file (Dir st es) = False"

fun node_stat :: "node \<Rightarrow> stat_result" where
  "node_stat (File st c) = st"
| "node_stat (Dir st es) = st"

definition resolve :: "world \<Rightarrow> upath \<Rightarrow> path" where
  "resolve w u = (case u of Abs p \<Rightarrow> p | Rel p \<Rightarrow> pcwd w @ p)"

definition os_path_join :: "upath \<Rightarrow> name \<Rightarrow> upath" where
  "os_path_join u n = (case u of Abs p \<Rightarrow> Abs (p @ [n]) | Rel p \<Rightarrow> Rel (p @ [n]))"

definition os_path_dirname :: "path \<Rightarrow> path" where
  "os_path_dirname p = butlast p"

definition os_path_exists :: "world \<Rightarrow> upath \<Rightarrow> bool" where
  "os_path_exists w u = (fs_lookup (fs w) (resolve w u) \<noteq> None)"

definition os_path_isdir :: "world \<Rightarrow> upath \<Rightarrow> bool" where
  "os_path_isdir w u =
     (case fs_lookup (fs w) (resolve w u) of None \<Rightarrow> False | Some nd \<Rightarrow> is_dir nd)"

definition os_path_isfile :: "world \<Rightarrow> upath \<Rightarrow> bool" where
  "os_path_isfile w u =
     (case fs_lookup (fs w) (resolve w u) of None \<Rightarrow> False | Some nd \<Rightarrow> is_file nd)"

definition os_listdir :: "world \<Rightarrow> upath \<Rightarrow> error + name list" where
  "os_listdir w u =
     (case fs_lookup (fs w) (resolve w u) of
        None \<Rightarrow> Inl FileNotFoundError
      | Some (File st c) \<Rightarrow> Inl NotADirectoryError
      | Some (Dir st es) \<Rightarrow> Inr (map fst es))"

definition os_getcwd :: "world \<Rightarrow> path" where
  "os_getcwd w = pcwd w"

definition os_chdir :: "world \<Rightarrow> upath \<Rightarrow> error + world" where
  "os_chdir w u =
     (case fs_lookup (fs w) (resolve w u) of
        None \<Rightarrow> Inl FileNotFoundError
      | Some (File st c) \<Rightarrow> Inl NotADirectoryError
      | Some (Dir st es) \<Rightarrow> Inr (w\<lparr>pcwd := resolve w u\<rparr>))"

definition os_stat :: "world \<Rightarrow> upath \<Rightarrow> error + stat_result" where
  "os_stat w u =
     (case fs_lookup (fs w) (resolve w u) of
        None \<Rightarrow> Inl FileNotFoundError
      | Some nd \<Rightarrow> Inr (node_stat nd))"

text \<open>
  \<^verbatim>\<open>os.mkdir\<close>: the parent has to be a directory and the path has to be free.
\<close>

definition os_mkdir :: "world \<Rightarrow> path \<Rightarrow> error + world" where
  "os_mkdir w p =
     (if fs_lookup (fs w) p \<noteq> None then Inl FileExistsError
      else case fs_lookup (fs w) (butlast p) of
        None \<Rightarrow> Inl FileNotFoundError
      | Some (File st c) \<Rightarrow> Inl NotADirectoryError
      | Some (Dir st es) \<Rightarrow> Inr (w\<lparr>fs := fs_put (fs w) p (Dir (fresh w) [])\<rparr>))"

text \<open>
  \<^verbatim>\<open>os.makedirs(name)\<close> with \<^verbatim>\<open>exist_ok=False\<close>: the missing ancestors named in the
  argument are created first (a \<^verbatim>\<open>FileExistsError\<close> from that recursive call is
  passed over), then the leaf with \<^verbatim>\<open>os.mkdir\<close>. The recursion runs over the components
  of the argument only: \<open>base\<close> is the root for an absolute argument and the working
  directory of the process for a relative one.
\<close>

function makedirs_from :: "world \<Rightarrow> path \<Rightarrow> path \<Rightarrow> error + world" where
  "makedirs_from w base cs =
     (if butlast cs \<noteq> [] \<and> fs_lookup (fs w) (base @ butlast cs) = None then
        (case makedirs_from w base (butlast cs) of
           Inl e \<Rightarrow> if e = FileExistsError then os_mkdir w (base @ cs) else Inl e
         | Inr w' \<Rightarrow> os_mkdir w' (base @ cs))
      else os_mkdir w (base @ cs))"
  by pat_completeness auto
termination
proof (relation "measure (\<lambda>(w, base, cs). length cs)")
  show "wf (measure (\<lambda>(w, base, cs). length cs))"
    by simp
next
  fix w :: world and base cs :: path
  assume "butlast cs \<noteq> [] \<and> fs_lookup (fs w) (base @ butlast cs) = None"
  then have "cs \<noteq> []"
    by auto
  then show "((w, base, butlast cs), (w, base, cs)) \<in> measure (\<lambda>(w, base, cs). length cs)"
    by simp
qed

declare makedirs_from.simps [simp del]

definition os_makedirs :: "world \<Rightarrow> upath \<Rightarrow> error + world" where
  "os_makedirs w u =
     (case u of Abs p \<Rightarrow> makedirs_from w [] p | Rel p \<Rightarrow> makedirs_from w (pcwd w) p)"

definition print :: "string \<Rightarrow> world \<Rightarrow> world" where
  "print s w = w\<lparr>stdout := stdout w @ [s]\<rparr>"

text \<open>
  Opening a file for writing creates it or empties it; the parent has to be a
  directory and the path must not be one. Reading needs an existing file.
\<close>

definition write_content :: "world \<Rightarrow> upath \<Rightarrow> string \<Rightarrow> world" where
  "write_content w u s = w\<lparr>fs := fs_put (fs w) (resolve w u) (File (fresh w) s)\<rparr>"

definition open_w :: "world \<Rightarrow> upath \<Rightarrow> error + world" where
  "open_w w u =
     (case fs_lookup (fs w) (resolve w u) of
        Some (Dir st es) \<Rightarrow> Inl IsADirectoryError
      | Some (File st c) \<Rightarrow> Inr (write_content w u [])
      | None \<Rightarrow>
          (case fs_lookup (fs w) (butlast (resolve w u)) of
             None \<Rightarrow> Inl FileNotFoundError
           | Some (File st c) \<Rightarrow> Inl NotADirectoryError
           | Some (Dir st es) \<Rightarrow> Inr (write_content w u [])))"

definition open_r :: "world \<Rightarrow> upath \<Rightarrow> error + string" where
  "open_r w u =
     (case fs_lookup (fs w) (resolve w u) of
        None \<Rightarrow> Inl FileNotFoundError
      | Some (Dir st es) \<Rightarrow> Inl IsADirectoryError
      | Some (File st c) \<Rightarrow> Inr c)"

text \<open>
  \<^verbatim>\<open>os.walk(top)\<close>, top down: the triple of a directory comes before the triples of
  its subdirectories, which follow in the order of the listing; a top that is no
  directory yields nothing.
\<close>

fun os_walk :: "path \<Rightarrow> node \<Rightarrow> (path \<times> name list \<times> name list) list" where
  "os_walk dirpath (File st c) = []"
| "os_walk dirpath (Dir st es) =
     (dirpath, map fst (filter (\<lambda>e. is_dir (snd e)) es), map fst (filter (\<lambda>e. is_file (snd e)) es))
     # concat (map (\<lambda>e. if is_dir (snd e) then os_walk (dirpath @ [fst e]) (snd e) else []) es)"

definition os_walk_path :: "world \<Rightarrow> path \<Rightarrow> (path \<times> name list \<times> name list) list" where
  "os_walk_path w p = (case fs_lookup (fs w) p of None \<Rightarrow> [] | Some nd \<Rightarrow> os_walk p nd)"

subsection \<open>Python's string operations\<close>

text \<open>\<^verbatim>\<open>s.split(c)\<close>, \<^verbatim>\<open>s.endswith(t)\<close>, \<^verbatim>\<open>s.strip(c)\<close>, \<^verbatim>\<open>t in s\<close>, \<^verbatim>\<open>oct(n)\<close> and \<^verbatim>\<open>s[-3:]\<close>.\<close>

fun split_on :: "char \<Rightarrow> string \<Rightarrow> string list" where
  "split_on c [] = [[]]"
| "split_on c (x # xs) =
     (if x = c then [] # split_on c xs
      else (case split_on c xs of [] \<Rightarrow> [[x]] | y # ys \<Rightarrow> (x # y) # ys))"

definition endswith :: "string \<Rightarrow> string \<Rightarrow> bool" where
  "endswith s t = suffix t s"

definition strip :: "char \<Rightarrow> string \<Rightarrow> string" where
  "strip c s = rev (dropWhile (\<lambda>x. x = c) (rev (dropWhile (\<lambda>x. x = c) s)))"

definition contains :: "string \<Rightarrow> string \<Rightarrow> bool" where
  "contains s t = sublist t s"

definition oct_digit :: "nat \<Rightarrow> char" where
  "oct_digit k = ''01234567'' ! k"

fun oct_digits :: "nat \<Rightarrow> string" where
  "oct_digits n =
     (if n < 8 then [oct_digit n] else oct_digits (n div 8) @ [oct_digit (n mod 8)])"

declare oct_digits.simps [simp del]

definition oct :: "nat \<Rightarrow> string" where
  "oct n = ''0o'' @ oct_digits n"

definition last3 :: "string \<Rightarrow> string" where
  "last3 s = drop (length s - 3) s"

section \<open>The class \<^verbatim>\<open>directories\<close>\<close>

text \<open>
  The object holds four attributes. Every method takes the object and the process
  state and returns what the method returns together with what it changed; an
  exception is the left summand. The library functions that serialise data
  (\<^verbatim>\<open>json\<close>, \<^verbatim>\<open>pickle\<close>, \<^verbatim>\<open>pandas\<close>) and \<^verbatim>\<open>shutil.move\<close> are parameters of the
  methods that call them.
\<close>

record directories =
  cwd :: path
  parent_dir :: path
  files :: "name list"
  home_dir :: "string option"

definition init :: "world \<Rightarrow> error + directories" where
  "init w =
     (case os_listdir w (Rel []) of
        Inl e \<Rightarrow> Inl e
      | Inr l \<Rightarrow>
          Inr \<lparr>cwd = os_getcwd w, parent_dir = os_path_dirname (os_getcwd w),
               files = l, home_dir = environ_HOME w\<rparr>)"

definition list_files :: "directories \<Rightarrow> world \<Rightarrow> upath \<Rightarrow> error + name list" where
  "list_files d w folder_path = os_listdir w folder_path"

text \<open>Python's \<^verbatim>\<open>sum\<close> over a generator of booleans adds one for each \<^verbatim>\<open>True\<close>.\<close>

definition sum_bools :: "bool list \<Rightarrow> int" where
  "sum_bools bs = sum_list (map (\<lambda>b. if b then 1 else 0) bs)"

definition count_items :: "directories \<Rightarrow> world \<Rightarrow> upath \<Rightarrow> string \<Rightarrow> error + int" where
  "count_items d w folder_path item_type =
     (if item_type \<notin> set [''files'', ''directories''] then Inl ValueError
      else case os_listdir w folder_path of
        Inl e \<Rightarrow> Inl e
      | Inr items \<Rightarrow>
          if item_type = ''files'' then
            Inr (sum_bools (map (\<lambda>item. os_path_isfile w (os_path_join folder_path item)) items))
          else
            Inr (sum_bools (map (\<lambda>item. os_path_isdir w (os_path_join folder_path item)) items)))"

definition construct_dir :: "directories \<Rightarrow> world \<Rightarrow> name \<Rightarrow> error + world" where
  "construct_dir d w new_dir_name = os_makedirs w (Rel [new_dir_name])"

fun join_loop :: "directories \<Rightarrow> world \<Rightarrow> upath \<Rightarrow> name list \<Rightarrow> error + upath \<times> world" where
  "join_loop d w current_path [] = Inr (current_path, w)"
| "join_loop d w current_path (keyword # keywords) =
     (if \<not> os_path_exists w (os_path_join current_path keyword) then
        (case construct_dir d w keyword of
           Inl e \<Rightarrow> Inl e
         | Inr w' \<Rightarrow> join_loop d w' (os_path_join current_path keyword) keywords)
      else join_loop d w (os_path_join current_path keyword) keywords)"

definition join_path_with_keyword ::
  "directories \<Rightarrow> world \<Rightarrow> name list \<Rightarrow> error + upath \<times> world" where
  "join_path_with_keyword d w keywords = join_loop d w (Abs (cwd d)) keywords"

text \<open>
  The loop of \<^verbatim>\<open>find_closest_kw_folder_up\<close> has no bound of its own: it ends at a
  match or where the path is the cached \<^verbatim>\<open>parent_dir\<close>. \<open>None\<close> is "does not return".
\<close>

definition up_message :: "name \<Rightarrow> string" where
  "up_message kw = ''Searching for '' @ [CHR 0x22] @ kw @ [CHR 0x22] @ '' folder upwards...''"

partial_function (option) up_loop ::
  "directories \<Rightarrow> name \<Rightarrow> path \<Rightarrow> world \<Rightarrow> (upath option \<times> world) option" where
  "up_loop d kw current_path w =
     (if os_path_exists w (os_path_join (Abs current_path) kw)
         \<and> os_path_isdir w (os_path_join (Abs current_path) kw)
      then Some (Some (os_path_join (Abs current_path) kw), w)
      else if current_path = parent_dir d then Some (None, w)
      else up_loop d kw (os_path_dirname current_path) (print (up_message kw) w))"

declare up_loop.simps [code]

definition find_closest_kw_folder_up ::
  "directories \<Rightarrow> world \<Rightarrow> name \<Rightarrow> (upath option \<times> world) option" where
  "find_closest_kw_folder_up d w kw = up_loop d kw (cwd d) w"

definition down_message :: "name \<Rightarrow> string" where
  "down_message kw = ''Searching for '' @ [CHR 0x22] @ kw @ [CHR 0x22] @ '' folder downwards...''"

fun scan_dirs :: "name \<Rightarrow> path \<Rightarrow> name list \<Rightarrow> world \<Rightarrow> upath option \<times> world" where
  "scan_dirs kw root_dir [] w = (None, w)"
| "scan_dirs kw root_dir (dir_name # dirs) w =
     (if contains dir_name kw then (Some (os_path_join (Abs root_dir) dir_name), w)
      else scan_dirs kw root_dir dirs (print (down_message kw) w))"

fun down_loop ::
  "name \<Rightarrow> (path \<times> name list \<times> name list) list \<Rightarrow> world \<Rightarrow> upath option \<times> world" where
  "down_loop kw [] w = (None, w)"
| "down_loop kw ((root_dir, dirs, fnames) # rest) w =
     (case scan_dirs kw root_dir dirs w of
        (Some p, w') \<Rightarrow> (Some p, w')
      | (None, w') \<Rightarrow> down_loop kw rest w')"

definition find_closest_kw_folder_down ::
  "directories \<Rightarrow> world \<Rightarrow> name \<Rightarrow> upath option \<times> world" where
  "find_closest_kw_folder_down d w kw = down_loop kw (os_walk_path w (cwd d)) w"

definition shift_dir :: "directories \<Rightarrow> world \<Rightarrow> upath \<Rightarrow> error + directories \<times> world" where
  "shift_dir d w new_dir =
     (case os_chdir w new_dir of
        Inl e \<Rightarrow> Inl e
      | Inr w' \<Rightarrow>
          (case os_listdir w' (Rel []) of
             Inl e \<Rightarrow> Inl e
           | Inr l \<Rightarrow> Inr (d\<lparr>cwd := os_getcwd w', files := l\<rparr>, w')))"

text \<open>
  The dictionary \<^verbatim>\<open>give_file_info\<close> returns, with its keys \<^verbatim>\<open>filename\<close>, \<^verbatim>\<open>size\<close>,
  \<^verbatim>\<open>last_modified\<close> and \<^verbatim>\<open>permissions\<close>.
\<close>

record file_info =
  info_filename :: name
  info_size :: nat
  info_last_modified :: int
  info_permissions :: string

definition give_file_info :: "directories \<Rightarrow> world \<Rightarrow> name \<Rightarrow> error + file_info option" where
  "give_file_info d w fname =
     (if os_path_exists w (os_path_join (Abs (cwd d)) fname) then
        (case os_stat w (os_path_join (Abs (cwd d)) fname) of
           Inl e \<Rightarrow> Inl e
         | Inr file_stat \<Rightarrow>
             Inr (Some \<lparr>info_filename = fname, info_size = st_size file_stat,
                        info_last_modified = st_mtime file_stat,
                        info_permissions = last3 (oct (st_mode file_stat))\<rparr>))
      else Inr None)"

text \<open>
  The messages show a path in its parsed form and an exception by the name of its class.
\<close>

fun join_slash :: "name list \<Rightarrow> string" where
  "join_slash [] = []"
| "join_slash [c] = c"
| "join_slash (c # cs) = c @ ''/'' @ join_slash cs"

definition path_str :: "upath \<Rightarrow> string" where
  "path_str u = (case u of Abs p \<Rightarrow> ''/'' @ join_slash p | Rel p \<Rightarrow> if p = [] then ''.'' else join_slash p)"

fun exception_text :: "error \<Rightarrow> string" where
  "exception_text FileNotFoundError = ''FileNotFoundError''"
| "exception_text FileExistsError = ''FileExistsError''"
| "exception_text NotADirectoryError = ''NotADirectoryError''"
| "exception_text IsADirectoryError = ''IsADirectoryError''"
| "exception_text ValueError = ''ValueError''"
| "exception_text TypeError = ''TypeError''"
| "exception_text DecodeError = ''DecodeError''"
| "exception_text ShutilError = ''Error''"

definition move_error_message :: "name \<Rightarrow> upath \<Rightarrow> error \<Rightarrow> string" where
  "move_error_message fname dest e =
     ''Error moving file '' @ fname @ '' to '' @ path_str dest @ '': '' @ exception_text e"

text \<open>
  \<^verbatim>\<open>shutil.move\<close> is the parameter \<open>shutil_move\<close>: from the process state, the source
  and the destination it gives the exception it raised, if any, and the new state.
\<close>

definition move_file ::
  "(world \<Rightarrow> upath \<Rightarrow> upath \<Rightarrow> error option \<times> world) \<Rightarrow>
   directories \<Rightarrow> world \<Rightarrow> name \<Rightarrow> upath \<Rightarrow> error + directories \<times> world" where
  "move_file shutil_move d w fname dest =
     (if \<not> os_path_exists w (os_path_join (Abs (cwd d)) fname) then
        Inr (d, print (''Error: File '' @ fname @ '' does not exist.'') w)
      else
        case (if \<not> os_path_exists w dest then os_makedirs w dest else Inr w) of
          Inl e \<Rightarrow> Inl e
        | Inr w1 \<Rightarrow>
            (case shutil_move w1 (os_path_join (Abs (cwd d)) fname) dest of
               (Some e, w2) \<Rightarrow> Inr (d, print (move_error_message fname dest e) w2)
             | (None, w2) \<Rightarrow>
                 (case os_listdir w2 (Rel []) of
                    Inl e \<Rightarrow> Inr (d, print (move_error_message fname dest e) w2)
                  | Inr l \<Rightarrow>
                      Inr (d\<lparr>files := l\<rparr>,
                           print (''File '' @ fname @ '' moved to '' @ path_str dest
                                  @ '' successfully.'') w2))))"

subsection \<open>Saving and loading\<close>

text \<open>
  A serialiser is a function from the value to the text of the file, \<open>None\<close> where
  the library refuses the value; a deserialiser is a function from the text to the
  value, \<open>None\<close> where the library raises on the text. A Python dictionary is an
  association list in insertion order, and \<^verbatim>\<open>dfs[key] = v\<close> is \<open>AList.update\<close>.
\<close>

definition save_json ::
  "('a \<Rightarrow> string option) \<Rightarrow> directories \<Rightarrow> world \<Rightarrow> 'a \<Rightarrow> name \<Rightarrow> error + world" where
  "save_json json_dump d w data fname =
     (case open_w w (os_path_join (Abs (cwd d)) fname) of
        Inl e \<Rightarrow> Inl e
      | Inr w' \<Rightarrow>
          (case json_dump data of
             None \<Rightarrow> Inl TypeError
           | Some s \<Rightarrow> Inr (write_content w' (os_path_join (Abs (cwd d)) fname) s)))"

definition load_json ::
  "(string \<Rightarrow> 'a option) \<Rightarrow> directories \<Rightarrow> world \<Rightarrow> name \<Rightarrow> error + 'a option" where
  "load_json json_load d w fname =
     (if os_path_exists w (os_path_join (Abs (cwd d)) fname) then
        (case open_r w (os_path_join (Abs (cwd d)) fname) of
           Inl e \<Rightarrow> Inl e
         | Inr s \<Rightarrow> (case json_load s of None \<Rightarrow> Inl DecodeError | Some v \<Rightarrow> Inr (Some v)))
      else Inr None)"

definition save_pickle ::
  "('a \<Rightarrow> string option) \<Rightarrow> directories \<Rightarrow> world \<Rightarrow> 'a \<Rightarrow> name \<Rightarrow> error + world" where
  "save_pickle pickle_dump d w data fname =
     (case open_w w (os_path_join (Abs (cwd d)) fname) of
        Inl e \<Rightarrow> Inl e
      | Inr w' \<Rightarrow>
          (case pickle_dump data of
             None \<Rightarrow> Inl TypeError
           | Some s \<Rightarrow> Inr (write_content w' (os_path_join (Abs (cwd d)) fname) s)))"

definition load_pickle ::
  "(string \<Rightarrow> 'a option) \<Rightarrow> directories \<Rightarrow> world \<Rightarrow> name \<Rightarrow> error + 'a option" where
  "load_pickle pickle_load d w fname =
     (if os_path_exists w (os_path_join (Abs (cwd d)) fname) then
        (case open_r w (os_path_join (Abs (cwd d)) fname) of
           Inl e \<Rightarrow> Inl e
         | Inr s \<Rightarrow> (case pickle_load s of None \<Rightarrow> Inl DecodeError | Some v \<Rightarrow> Inr (Some v)))
      else Inr None)"

definition save_dict_of_dfs_pickle ::
  "((string \<times> 't) list \<Rightarrow> string option) \<Rightarrow> directories \<Rightarrow> world \<Rightarrow>
   (string \<times> 't) list \<Rightarrow> name \<Rightarrow> error + world" where
  "save_dict_of_dfs_pickle pickle_dump d w dfs fname =
     (case open_w w (os_path_join (Abs (cwd d)) fname) of
        Inl e \<Rightarrow> Inl e
      | Inr w' \<Rightarrow>
          (case pickle_dump dfs of
             None \<Rightarrow> Inl TypeError
           | Some s \<Rightarrow>
               Inr (print (''DataFrames saved as pickle object to '' @ fname @ '' successfully.'')
                      (write_content w' (os_path_join (Abs (cwd d)) fname) s))))"

definition load_dict_of_dfs_pickle ::
  "(string \<Rightarrow> (string \<times> 't) list option) \<Rightarrow> directories \<Rightarrow> world \<Rightarrow> name \<Rightarrow>
   error + (string \<times> 't) list option \<times> world" where
  "load_dict_of_dfs_pickle pickle_load d w fname =
     (if os_path_exists w (os_path_join (Abs (cwd d)) fname) then
        (case open_r w (os_path_join (Abs (cwd d)) fname) of
           Inl e \<Rightarrow> Inl e
         | Inr s \<Rightarrow>
             (case pickle_load s of
                None \<Rightarrow> Inl DecodeError
              | Some dfs \<Rightarrow>
                  Inr (Some dfs,
                       print (''DataFrames loaded from pickle object '' @ fname @ '' successfully.'') w)))
      else Inr (None, w))"

text \<open>
  The HDF5 store is a parameter too: \<open>hdf_dump\<close> gives the text of the file that a
  store opened with mode \<^verbatim>\<open>w\<close> holds once the items have been put into it in order,
  and \<open>hdf_items\<close> gives, for the text of a file, the keys that \<^verbatim>\<open>store.keys()\<close> reports,
  each with the table \<^verbatim>\<open>store[key]\<close>.
\<close>

definition save_dict_of_dfs_hdf5 ::
  "((string \<times> 't) list \<Rightarrow> string option) \<Rightarrow> directories \<Rightarrow> world \<Rightarrow>
   (string \<times> 't) list \<Rightarrow> name \<Rightarrow> error + world" where
  "save_dict_of_dfs_hdf5 hdf_dump d w dfs fname =
     (case open_w w (os_path_join (Abs (cwd d)) fname) of
        Inl e \<Rightarrow> Inl e
      | Inr w' \<Rightarrow>
          (case hdf_dump dfs of
             None \<Rightarrow> Inl TypeError
           | Some s \<Rightarrow>
               Inr (print (''DataFrames saved to HDF5 file '' @ fname @ '' successfully.'')
                      (write_content w' (os_path_join (Abs (cwd d)) fname) s))))"

definition load_dict_of_dfs_hdf5 ::
  "(string \<Rightarrow> (string \<times> 't) list option) \<Rightarrow> directories \<Rightarrow> world \<Rightarrow> name \<Rightarrow>
   error + (string \<times> 't) list \<times> world" where
  "load_dict_of_dfs_hdf5 hdf_items d w fname =
     (case open_r w (os_path_join (Abs (cwd d)) fname) of
        Inl e \<Rightarrow> Inl e
      | Inr s \<Rightarrow>
          (case hdf_items s of
             None \<Rightarrow> Inl DecodeError
           | Some items \<Rightarrow>
               Inr (fold (\<lambda>(key, t) dfs. AList.update (strip CHR ''/'' key) t dfs) items [],
                    print (''DataFrames loaded from HDF5 file '' @ fname @ '' successfully.'') w)))"

text \<open>
  The CSV methods build their paths by string formatting, \<^verbatim>\<open>f'{folder}/{key}.csv'\<close>:
  the text after the folder is cut at the separators, so a key with a separator in it
  names a file further down.
\<close>

definition path_components :: "string \<Rightarrow> name list" where
  "path_components s = filter (\<lambda>c. c \<noteq> []) (split_on CHR ''/'' s)"

definition format_path :: "upath \<Rightarrow> string \<Rightarrow> upath" where
  "format_path folder rest =
     (case folder of
        Abs p \<Rightarrow> Abs (p @ path_components rest)
      | Rel p \<Rightarrow> Rel (p @ path_components rest))"

fun save_csv_loop :: "('t \<Rightarrow> string) \<Rightarrow> world \<Rightarrow> upath \<Rightarrow> (string \<times> 't) list \<Rightarrow> error + world" where
  "save_csv_loop to_csv w folder [] = Inr w"
| "save_csv_loop to_csv w folder ((key, df) # rest) =
     (case open_w w (format_path folder (key @ ''.csv'')) of
        Inl e \<Rightarrow> Inl e
      | Inr w' \<Rightarrow>
          save_csv_loop to_csv (write_content w' (format_path folder (key @ ''.csv'')) (to_csv df))
            folder rest)"

definition save_dict_of_dfs_csv ::
  "('t \<Rightarrow> string) \<Rightarrow> directories \<Rightarrow> world \<Rightarrow> (string \<times> 't) list \<Rightarrow> upath \<Rightarrow> error + world" where
  "save_dict_of_dfs_csv to_csv d w dfs folder =
     (case save_csv_loop to_csv w folder dfs of
        Inl e \<Rightarrow> Inl e
      | Inr w' \<Rightarrow>
          Inr (print (''DataFrames saved as CSV files to '' @ path_str folder @ '' successfully.'') w'))"

fun load_csv_loop ::
  "(string \<Rightarrow> 't option) \<Rightarrow> world \<Rightarrow> upath \<Rightarrow> name list \<Rightarrow> (string \<times> 't) list \<Rightarrow>
   error + (string \<times> 't) list" where
  "load_csv_loop read_csv w folder [] dfs = Inr dfs"
| "load_csv_loop read_csv w folder (fname # rest) dfs =
     (if endswith fname ''.csv'' then
        (case open_r w (format_path folder fname) of
           Inl e \<Rightarrow> Inl e
         | Inr s \<Rightarrow>
             (case read_csv s of
                None \<Rightarrow> Inl DecodeError
              | Some t \<Rightarrow>
                  load_csv_loop read_csv w folder rest
                    (AList.update (hd (split_on CHR ''.'' fname)) t dfs)))
      else load_csv_loop read_csv w folder rest dfs)"

definition load_dict_of_dfs_csv ::
  "(string \<Rightarrow> 't option) \<Rightarrow> directories \<Rightarrow> world \<Rightarrow> upath \<Rightarrow>
   error + (string \<times> 't) list \<times> world" where
  "load_dict_of_dfs_csv read_csv d w folder =
     (case os_listdir w folder of
        Inl e \<Rightarrow> Inl e
      | Inr names \<Rightarrow>
          (case load_csv_loop read_csv w folder names [] of
             Inl e \<Rightarrow> Inl e
           | Inr dfs \<Rightarrow>
               Inr (dfs,
                    print (''DataFrames loaded from CSV files in '' @ path_str folder
                           @ '' successfully.'') w)))"

section \<open>Notions used in the statements\<close>

text \<open>The test of the upward search: a directory of the name \<open>kw\<close> exists in \<open>c\<close>.\<close>

definition kw_dir_at :: "world \<Rightarrow> path \<Rightarrow> name \<Rightarrow> bool" where
  "kw_dir_at w c kw =
     (os_path_exists w (os_path_join (Abs c) kw) \<and> os_path_isdir w (os_path_join (Abs c) kw))"

text \<open>
  The traversal the specification names for the downward search: the directories below
  \<open>p\<close> in pre-order, the entries of each directory taken in the lexicographic order of
  their names. A path matches where its last component contains the keyword.
\<close>

fun preorder_subdirs :: "path \<Rightarrow> node \<Rightarrow> path list" where
  "preorder_subdirs p (File st c) = []"
| "preorder_subdirs p (Dir st es) =
     concat (map (\<lambda>e. if is_dir (snd e) then (p @ [fst e]) # preorder_subdirs (p @ [fst e]) (snd e) else [])
               (sort_key fst es))"

text \<open>
  The order in which the loop over \<^verbatim>\<open>os.walk\<close> meets the directories: the
  subdirectories of a directory, in the order of its listing, come before anything that
  lies deeper.
\<close>

fun walk_order :: "path \<Rightarrow> node \<Rightarrow> path list" where
  "walk_order p (File st c) = []"
| "walk_order p (Dir st es) =
     map (\<lambda>e. p @ [fst e]) (filter (\<lambda>e. is_dir (snd e)) es)
     @ concat (map (\<lambda>e. if is_dir (snd e) then walk_order (p @ [fst e]) (snd e) else []) es)"

definition name_contains :: "name \<Rightarrow> path \<Rightarrow> bool" where
  "name_contains kw q = (q \<noteq> [] \<and> contains (last q) kw)"

text \<open>The paths that the loop tests while it is at one triple of \<^verbatim>\<open>os.walk\<close>.\<close>

definition candidates :: "(path \<times> name list \<times> name list) \<Rightarrow> path list" where
  "candidates t = map (\<lambda>dn. fst t @ [dn]) (fst (snd t))"

text \<open>
  What the statements about saving and loading assume of the libraries: a serialiser
  and its deserialiser round-trip a value when the text written for it is read back as
  that value; an HDF5 store reports the table put under the key \<open>k\<close> under \<^verbatim>\<open>/k\<close>, each
  key once and the keys in an order of its own. The
  part of a name before its first dot is what \<^verbatim>\<open>name.split('.')[0]\<close> returns.
\<close>

definition round_trips :: "('a \<Rightarrow> string option) \<Rightarrow> (string \<Rightarrow> 'a option) \<Rightarrow> 'a \<Rightarrow> bool" where
  "round_trips dump load x = (\<forall>s. dump x = Some s \<longrightarrow> load s = Some x)"

definition no_slash_ends :: "string \<Rightarrow> bool" where
  "no_slash_ends k = (k = [] \<or> (hd k \<noteq> CHR ''/'' \<and> last k \<noteq> CHR ''/''))"

definition hdf_round_trips ::
  "((string \<times> 't) list \<Rightarrow> string option) \<Rightarrow> (string \<Rightarrow> (string \<times> 't) list option) \<Rightarrow>
   (string \<times> 't) list \<Rightarrow> bool" where
  "hdf_round_trips hdf_dump hdf_items dfs =
     (\<forall>s. hdf_dump dfs = Some s \<longrightarrow>
        (\<exists>items. hdf_items s = Some items \<and> distinct (map fst items)
           \<and> set items = set (map (\<lambda>(k, t). (CHR ''/'' # k, t)) dfs)))"

definition before_first_dot :: "string \<Rightarrow> string" where
  "before_first_dot s = takeWhile (\<lambda>c. c \<noteq> CHR ''.'') s"

text \<open>
  The loop of \<^verbatim>\<open>load_dict_of_dfs_csv\<close> where every file is read without an exception:
  \<open>tab n\<close> is the table read from the entry \<open>n\<close>. The listing of the folder after
  \<^verbatim>\<open>save_dict_of_dfs_csv\<close>, and the two lines the CSV methods print.
\<close>

definition csv_key :: "name \<Rightarrow> string" where
  "csv_key n = hd (split_on CHR ''.'' n)"

definition load_step :: "(name \<Rightarrow> 't) \<Rightarrow> name \<Rightarrow> (string \<times> 't) list \<Rightarrow> (string \<times> 't) list" where
  "load_step tab n acc =
     (if endswith n ''.csv'' then AList.update (csv_key n) (tab n) acc else acc)"

definition saved_entries ::
  "stat_result \<Rightarrow> ('t \<Rightarrow> string) \<Rightarrow> (string \<times> 't) list \<Rightarrow> (name \<times> node) list \<Rightarrow> (name \<times> node) list" where
  "saved_entries fr to_csv dfs es =
     fold (\<lambda>kt al. AList.update (fst kt @ ''.csv'') (File fr (to_csv (snd kt))) al) dfs es"

definition csv_saved_message :: "upath \<Rightarrow> string" where
  "csv_saved_message folder = ''DataFrames saved as CSV files to '' @ path_str folder @ '' successfully.''"

definition csv_loaded_message :: "upath \<Rightarrow> string" where
  "csv_loaded_message folder = ''DataFrames loaded from CSV files in '' @ path_str folder @ '' successfully.''"

section \<open>Example file systems\<close>

text \<open>
  A directory \<^verbatim>\<open>/g\<close> with a subdirectory \<^verbatim>\<open>data\<close> and a project directory \<^verbatim>\<open>p\<close>, which
  holds a directory \<^verbatim>\<open>c\<close> and a file \<^verbatim>\<open>notes.txt\<close>.
\<close>

definition st_dir :: stat_result where
  "st_dir = \<lparr>st_mode = 16877, st_size = 4096, st_mtime = 1700000000\<rparr>"

definition st_file :: stat_result where
  "st_file = \<lparr>st_mode = 33188, st_size = 12, st_mtime = 1700000001\<rparr>"

definition ex_fs :: node where
  "ex_fs =
     Dir st_dir
       [(''g'', Dir st_dir
          [(''data'', Dir st_dir []),
           (''p'', Dir st_dir [(''c'', Dir st_dir []), (''notes.txt'', File st_file ''hello, world'')])])]"

definition ex_world :: "path \<Rightarrow> world" where
  "ex_world p = \<lparr>fs = ex_fs, pcwd = p, environ_HOME = Some ''/g'', fresh = st_dir, stdout = []\<rparr>"

text \<open>
  An object with the current path \<open>p\<close> and the parent of \<open>p\<close> as its parent path, as the
  constructor caches them. The cached listing is left empty: the methods write it and
  none reads it.
\<close>

definition ex_obj :: "path \<Rightarrow> directories" where
  "ex_obj p = \<lparr>cwd = p, parent_dir = butlast p, files = [], home_dir = Some ''/g''\<rparr>"

text \<open>
  A second tree: \<^verbatim>\<open>/s\<close> holds \<^verbatim>\<open>x\<close> and \<^verbatim>\<open>y/data\<close>; \<^verbatim>\<open>/t\<close> holds \<^verbatim>\<open>a/data\<close> and
  \<^verbatim>\<open>data2\<close>.
\<close>

definition ex_tree :: node where
  "ex_tree =
     Dir st_dir
       [(''s'', Dir st_dir [(''x'', Dir st_dir []), (''y'', Dir st_dir [(''data'', Dir st_dir [])])]),
        (''t'', Dir st_dir [(''a'', Dir st_dir [(''data'', Dir st_dir [])]), (''data2'', Dir st_dir [])])]"

definition ex_tree_world :: "path \<Rightarrow> world" where
  "ex_tree_world p = \<lparr>fs = ex_tree, pcwd = p, environ_HOME = Some ''/g'', fresh = st_dir, stdout = []\<rparr>"

text \<open>Collections of tables, a table being the text of its CSV file.\<close>

definition ex_tables :: "(string \<times> string) list" where
  "ex_tables = [(''sales.2024'', ''id,amount'')]"

definition ex_plain_tables :: "(string \<times> string) list" where
  "ex_plain_tables = [(''sales'', ''id,amount''), (''costs'', ''id,cost'')]"

text \<open>The first tree after the table \<^verbatim>\<open>sales.2024\<close> has been saved as CSV into \<^verbatim>\<open>/g/p/c\<close>.\<close>

definition ex_csv_fs :: node where
  "ex_csv_fs =
     Dir st_dir
       [(''g'', Dir st_dir
          [(''data'', Dir st_dir []),
           (''p'', Dir st_dir
              [(''c'', Dir st_dir [(''sales.2024.csv'', File st_dir ''id,amount'')]),
               (''notes.txt'', File st_file ''hello, world'')])])]"

text \<open>
  The object constructed in \<^verbatim>\<open>/g/p/c\<close> after \<^verbatim>\<open>shift_dir('/g/data')\<close>: its parent path
  is still \<^verbatim>\<open>/g/p\<close>.
\<close>

definition ex_strayed :: directories where
  "ex_strayed = \<lparr>cwd = [''g'', ''data''], parent_dir = [''g'', ''p''], files = [], home_dir = Some ''/g''\<rparr>"

section \<open>Counting the entries of a directory\<close>

lemmas os_defs =
  os_path_exists_def os_path_isdir_def os_path_isfile_def os_listdir_def os_path_join_def
  os_path_dirname_def os_getcwd_def os_chdir_def os_stat_def resolve_def

lemma sum_bools_filter: "sum_bools (map P xs) = int (length (filter P xs))"
  by (induction xs) (auto simp: sum_bools_def)

text \<open>
  C5. Where \<^verbatim>\<open>list_files\<close> returns the entries of a directory, \<^verbatim>\<open>count_items\<close> returns,
  for the kind \<^verbatim>\<open>files\<close>, the number of those entries that are regular files, and for
  the kind \<^verbatim>\<open>directories\<close>, the number of those that are directories.
\<close>

theorem count_items_matches_list_files:
  assumes "list_files d w folder_path = Inr items"
  shows "count_items d w folder_path ''files''
           = Inr (int (length (filter (\<lambda>item. os_path_isfile w (os_path_join folder_path item)) items)))
       \<and> count_items d w folder_path ''directories''
           = Inr (int (length (filter (\<lambda>item. os_path_isdir w (os_path_join folder_path item)) items)))"
  using assms by (simp add: count_items_def list_files_def sum_bools_filter)

theorem count_items_matches_list_files_witness:
  "list_files (ex_obj [''g'', ''p'']) (ex_world [''g'', ''p'']) (Abs [''g'']) = Inr [''data'', ''p'']
   \<and> count_items (ex_obj [''g'', ''p'']) (ex_world [''g'', ''p'']) (Abs [''g'']) ''files'' = Inr 0
   \<and> count_items (ex_obj [''g'', ''p'']) (ex_world [''g'', ''p'']) (Abs [''g'']) ''directories'' = Inr 2"
proof -
  have l: "list_files (ex_obj [''g'', ''p'']) (ex_world [''g'', ''p'']) (Abs [''g'']) = Inr [''data'', ''p'']"
    by (simp add: list_files_def os_defs ex_world_def ex_fs_def)
  from count_items_matches_list_files [OF l] l show ?thesis
    by (simp add: os_defs ex_world_def ex_fs_def)
qed

section \<open>What printing leaves alone\<close>

lemma print_fields [simp]:
  "fs (print s w) = fs w" "pcwd (print s w) = pcwd w" "stdout (print s w) = stdout w @ [s]"
  "fresh (print s w) = fresh w" "environ_HOME (print s w) = environ_HOME w"
  by (simp_all add: print_def)

lemma resolve_print [simp]: "resolve (print s w) u = resolve w u"
  by (cases u) (simp_all add: resolve_def)

lemma os_print [simp]:
  "os_path_exists (print s w) u = os_path_exists w u"
  "os_path_isdir (print s w) u = os_path_isdir w u"
  "os_path_isfile (print s w) u = os_path_isfile w u"
  "os_listdir (print s w) u = os_listdir w u"
  by (simp_all add: os_path_exists_def os_path_isdir_def os_path_isfile_def os_listdir_def)

section \<open>Information about an entry\<close>

text \<open>
  C9. \<^verbatim>\<open>give_file_info\<close> returns \<^verbatim>\<open>None\<close> exactly when nothing of the given name exists
  under the current path, and it never raises; where the name is that of a directory it
  returns the dictionary, with the size, the modification time and the last three
  characters of the octal mode of the directory.
\<close>

theorem give_file_info_none_iff_absent:
  "(give_file_info d w fname = Inr None
      \<longleftrightarrow> \<not> os_path_exists w (os_path_join (Abs (cwd d)) fname))
   \<and> (\<forall>e. give_file_info d w fname \<noteq> Inl e)
   \<and> (os_path_isdir w (os_path_join (Abs (cwd d)) fname) \<longrightarrow>
        (\<exists>st. os_stat w (os_path_join (Abs (cwd d)) fname) = Inr st
           \<and> give_file_info d w fname =
               Inr (Some \<lparr>info_filename = fname, info_size = st_size st,
                          info_last_modified = st_mtime st,
                          info_permissions = last3 (oct (st_mode st))\<rparr>)))"
  by (auto simp: give_file_info_def os_path_exists_def os_stat_def os_path_isdir_def
           split: option.splits)

theorem give_file_info_none_iff_absent_witness:
  "os_path_isdir (ex_world [''g'', ''p'']) (os_path_join (Abs (cwd (ex_obj [''g'', ''p'']))) ''c'')
   \<and> give_file_info (ex_obj [''g'', ''p'']) (ex_world [''g'', ''p'']) ''c'' =
        Inr (Some \<lparr>info_filename = ''c'', info_size = 4096, info_last_modified = 1700000000,
                   info_permissions = ''755''\<rparr>)
   \<and> give_file_info (ex_obj [''g'', ''p'']) (ex_world [''g'', ''p'']) ''absent'' = Inr None"
proof -
  have dir: "os_path_isdir (ex_world [''g'', ''p'']) (os_path_join (Abs (cwd (ex_obj [''g'', ''p'']))) ''c'')"
    by (simp add: os_defs ex_world_def ex_obj_def ex_fs_def)
  have absent: "\<not> os_path_exists (ex_world [''g'', ''p''])
                    (os_path_join (Abs (cwd (ex_obj [''g'', ''p'']))) ''absent'')"
    by (simp add: os_defs ex_world_def ex_obj_def ex_fs_def)
  have st: "os_stat (ex_world [''g'', ''p'']) (os_path_join (Abs (cwd (ex_obj [''g'', ''p'']))) ''c'') = Inr st_dir"
    by (simp add: os_defs ex_world_def ex_obj_def ex_fs_def)
  have perm: "last3 (oct (st_mode st_dir)) = ''755''"
    by (simp add: st_dir_def last3_def oct_def oct_digits.simps oct_digit_def)
  from give_file_info_none_iff_absent [of "ex_obj [''g'', ''p'']" "ex_world [''g'', ''p'']" "''c''"] dir st
  have c: "give_file_info (ex_obj [''g'', ''p'']) (ex_world [''g'', ''p'']) ''c'' =
        Inr (Some \<lparr>info_filename = ''c'', info_size = st_size st_dir,
                   info_last_modified = st_mtime st_dir,
                   info_permissions = last3 (oct (st_mode st_dir))\<rparr>)"
    by auto
  from give_file_info_none_iff_absent [of "ex_obj [''g'', ''p'']" "ex_world [''g'', ''p'']" "''absent''"] absent
  have a: "give_file_info (ex_obj [''g'', ''p'']) (ex_world [''g'', ''p'']) ''absent'' = Inr None"
    by blast
  from dir a c perm show ?thesis
    by (simp add: st_dir_def)
qed

section \<open>Moving a file that is not there\<close>

text \<open>
  C7. Where the named file does not exist under the current path, \<^verbatim>\<open>move_file\<close> raises
  nothing, prints its error line and returns: the object is as before, the file system
  and the working directory are as before, so the destination exists after the call
  exactly if it did before and lists the same entries. No destination is created and
  \<^verbatim>\<open>shutil.move\<close> is not called, whatever it would have done.
\<close>

theorem move_file_missing_source:
  assumes "\<not> os_path_exists w (os_path_join (Abs (cwd d)) fname)"
  shows "move_file shutil_move d w fname dest
           = Inr (d, print (''Error: File '' @ fname @ '' does not exist.'') w)
       \<and> (\<forall>d' w'. move_file shutil_move d w fname dest = Inr (d', w') \<longrightarrow>
             d' = d \<and> fs w' = fs w \<and> pcwd w' = pcwd w
             \<and> stdout w' = stdout w @ [''Error: File '' @ fname @ '' does not exist.'']
             \<and> os_path_exists w' dest = os_path_exists w dest
             \<and> os_listdir w' dest = os_listdir w dest)"
  using assms by (simp add: move_file_def)

theorem move_file_missing_source_witness:
  "\<not> os_path_exists (ex_world [''g'', ''p'']) (os_path_join (Abs (cwd (ex_obj [''g'', ''p'']))) ''absent'')
   \<and> move_file (\<lambda>w src dst. (Some ShutilError, w)) (ex_obj [''g'', ''p'']) (ex_world [''g'', ''p''])
        ''absent'' (Rel [''out''])
      = Inr (ex_obj [''g'', ''p''], print ''Error: File absent does not exist.'' (ex_world [''g'', ''p'']))
   \<and> \<not> os_path_exists (print ''Error: File absent does not exist.'' (ex_world [''g'', ''p'']))
         (Rel [''out''])"
proof -
  have absent: "\<not> os_path_exists (ex_world [''g'', ''p''])
                    (os_path_join (Abs (cwd (ex_obj [''g'', ''p'']))) ''absent'')"
    by (simp add: os_defs ex_world_def ex_obj_def ex_fs_def)
  from move_file_missing_source [OF absent, of "\<lambda>w src dst. (Some ShutilError, w)" "Rel [''out'']"] absent
  show ?thesis
    by (simp add: os_defs ex_world_def ex_fs_def)
qed


section \<open>Navigation and the cached attributes\<close>

text \<open>
  C4. After \<^verbatim>\<open>shift_dir\<close> has returned, the cached current path is the working
  directory of the process and the cached listing is the listing of that directory;
  the cached parent path is the one the object had before the call.
\<close>

theorem shift_dir_refreshes_cwd_and_files:
  assumes "shift_dir d w new_dir = Inr (d', w')"
  shows "cwd d' = os_getcwd w' \<and> os_listdir w' (Abs (cwd d')) = Inr (files d')
       \<and> parent_dir d' = parent_dir d \<and> home_dir d' = home_dir d"
  using assms
  by (auto simp: shift_dir_def os_chdir_def os_listdir_def os_getcwd_def resolve_def
           split: sum.splits option.splits node.splits)

text \<open>
  The object constructed in \<^verbatim>\<open>/g/p\<close> and moved to its subdirectory \<^verbatim>\<open>c\<close> keeps
  \<^verbatim>\<open>/g\<close> as its parent path, while the parent of its current path is \<^verbatim>\<open>/g/p\<close>.
\<close>

theorem shift_dir_refreshes_cwd_and_files_witness:
  "init (ex_world [''g'', ''p''])
     = Inr \<lparr>cwd = [''g'', ''p''], parent_dir = [''g''], files = [''c'', ''notes.txt''],
            home_dir = Some ''/g''\<rparr>
   \<and> shift_dir \<lparr>cwd = [''g'', ''p''], parent_dir = [''g''], files = [''c'', ''notes.txt''],
                 home_dir = Some ''/g''\<rparr> (ex_world [''g'', ''p'']) (Rel [''c''])
     = Inr (\<lparr>cwd = [''g'', ''p'', ''c''], parent_dir = [''g''], files = [],
             home_dir = Some ''/g''\<rparr>, ex_world [''g'', ''p'', ''c''])
   \<and> os_path_dirname [''g'', ''p'', ''c''] = [''g'', ''p'']
   \<and> os_listdir (ex_world [''g'', ''p'', ''c'']) (Abs [''g'', ''p'', ''c'']) = Inr []"
proof -
  have i: "init (ex_world [''g'', ''p''])
     = Inr \<lparr>cwd = [''g'', ''p''], parent_dir = [''g''], files = [''c'', ''notes.txt''],
            home_dir = Some ''/g''\<rparr>"
    by (simp add: init_def os_defs ex_world_def ex_fs_def)
  have s: "shift_dir \<lparr>cwd = [''g'', ''p''], parent_dir = [''g''], files = [''c'', ''notes.txt''],
                 home_dir = Some ''/g''\<rparr> (ex_world [''g'', ''p'']) (Rel [''c''])
     = Inr (\<lparr>cwd = [''g'', ''p'', ''c''], parent_dir = [''g''], files = [],
             home_dir = Some ''/g''\<rparr>, ex_world [''g'', ''p'', ''c''])"
    by (simp add: shift_dir_def os_defs ex_world_def ex_fs_def)
  from shift_dir_refreshes_cwd_and_files [OF s] i s show ?thesis
    by (simp add: os_path_dirname_def)
qed

section \<open>Joining segments onto the current path\<close>

text \<open>
  C3. In the empty directory \<^verbatim>\<open>/g/data\<close>, \<^verbatim>\<open>join_path_with_keyword('a', 'b')\<close> returns
  \<^verbatim>\<open>/g/data/a/b\<close> after creating \<^verbatim>\<open>/g/data/a\<close> and \<^verbatim>\<open>/g/data/b\<close>: \<^verbatim>\<open>construct_dir\<close>
  gets the segment, not the joined path, and creates it in the working directory. The
  returned path does not exist, and the same call again raises \<^verbatim>\<open>FileExistsError\<close>.
\<close>

theorem join_path_with_keyword_two_segments:
  "(case join_path_with_keyword (ex_obj [''g'', ''data'']) (ex_world [''g'', ''data'']) [''a'', ''b''] of
      Inl e \<Rightarrow> False
    | Inr (p, w') \<Rightarrow>
        p = Abs [''g'', ''data'', ''a'', ''b'']
        \<and> os_listdir w' (Abs [''g'', ''data'']) = Inr [''a'', ''b'']
        \<and> os_path_isdir w' (Abs [''g'', ''data'', ''a''])
        \<and> os_path_isdir w' (Abs [''g'', ''data'', ''b''])
        \<and> \<not> os_path_exists w' (Abs [''g'', ''data'', ''a'', ''b''])
        \<and> join_path_with_keyword (ex_obj [''g'', ''data'']) w' [''a'', ''b''] = Inl FileExistsError)"
  by (simp add: join_path_with_keyword_def construct_dir_def os_makedirs_def makedirs_from.simps
        os_mkdir_def os_defs ex_world_def ex_obj_def ex_fs_def)

section \<open>Loading what is not there\<close>

text \<open>
  C2. Where the file is absent, \<^verbatim>\<open>load_json\<close>, \<^verbatim>\<open>load_pickle\<close> and
  \<^verbatim>\<open>load_dict_of_dfs_pickle\<close> return \<^verbatim>\<open>None\<close>; \<^verbatim>\<open>load_dict_of_dfs_hdf5\<close> opens the store
  without looking first and raises, and where the folder is absent
  \<^verbatim>\<open>load_dict_of_dfs_csv\<close> raises from \<^verbatim>\<open>os.listdir\<close>.
\<close>

theorem load_of_absent_target:
  assumes "\<not> os_path_exists w (os_path_join (Abs (cwd d)) fname)"
    and "\<not> os_path_exists w folder"
  shows "load_json json_load d w fname = Inr None
       \<and> load_pickle pickle_load d w fname = Inr None
       \<and> load_dict_of_dfs_pickle pickle_load_dfs d w fname = Inr (None, w)
       \<and> load_dict_of_dfs_hdf5 hdf_items d w fname = Inl FileNotFoundError
       \<and> load_dict_of_dfs_csv read_csv d w folder = Inl FileNotFoundError"
  using assms
  by (simp add: load_json_def load_pickle_def load_dict_of_dfs_pickle_def
        load_dict_of_dfs_hdf5_def load_dict_of_dfs_csv_def open_r_def os_path_exists_def
        os_listdir_def)

theorem load_of_absent_target_witness:
  "\<not> os_path_exists (ex_world [''g'', ''p'']) (os_path_join (Abs (cwd (ex_obj [''g'', ''p'']))) ''tables.h5'')
   \<and> \<not> os_path_exists (ex_world [''g'', ''p'']) (Rel [''tables''])
   \<and> load_json (\<lambda>s. Some s) (ex_obj [''g'', ''p'']) (ex_world [''g'', ''p'']) ''tables.h5'' = Inr None
   \<and> load_dict_of_dfs_hdf5 (\<lambda>s. Some [(''/t'', s)]) (ex_obj [''g'', ''p'']) (ex_world [''g'', ''p''])
        ''tables.h5'' = Inl FileNotFoundError
   \<and> load_dict_of_dfs_csv (\<lambda>s. Some s) (ex_obj [''g'', ''p'']) (ex_world [''g'', ''p''])
        (Rel [''tables'']) = Inl FileNotFoundError"
proof -
  have a: "\<not> os_path_exists (ex_world [''g'', ''p''])
              (os_path_join (Abs (cwd (ex_obj [''g'', ''p'']))) ''tables.h5'')"
    by (simp add: os_defs ex_world_def ex_obj_def ex_fs_def)
  have b: "\<not> os_path_exists (ex_world [''g'', ''p'']) (Rel [''tables''])"
    by (simp add: os_defs ex_world_def ex_fs_def)
  from load_of_absent_target [OF a b, of "\<lambda>s. Some s" "\<lambda>s. Some s" "\<lambda>s. Some [(''t'', s)]"
         "\<lambda>s. Some [(''/t'', s)]" "\<lambda>s. Some s"] a b
  show ?thesis
    by simp
qed

section \<open>Searching upwards for a folder\<close>

lemma kw_dir_at_print [simp]: "kw_dir_at (print s w) c kw = kw_dir_at w c kw"
  by (simp add: kw_dir_at_def)

lemma kw_dir_at_prints [simp]: "kw_dir_at ((print s ^^ n) w) c kw = kw_dir_at w c kw"
  by (induction n) simp_all

lemma up_loop_found:
  "kw_dir_at w c kw \<Longrightarrow> up_loop d kw c w = Some (Some (os_path_join (Abs c) kw), w)"
  by (subst up_loop.simps) (simp add: kw_dir_at_def)

lemma up_loop_stop:
  "\<not> kw_dir_at w c kw \<Longrightarrow> c = parent_dir d \<Longrightarrow> up_loop d kw c w = Some (None, w)"
  by (subst up_loop.simps) (auto simp add: kw_dir_at_def)

lemma up_loop_step:
  "\<not> kw_dir_at w c kw \<Longrightarrow> c \<noteq> parent_dir d \<Longrightarrow>
   up_loop d kw c w = up_loop d kw (os_path_dirname c) (print (up_message kw) w)"
  by (subst up_loop.simps) (auto simp add: kw_dir_at_def)

lemma up_loop_climb:
  "(\<forall>m<n. \<not> kw_dir_at w ((os_path_dirname ^^ m) c) kw \<and> (os_path_dirname ^^ m) c \<noteq> parent_dir d)
   \<Longrightarrow> up_loop d kw c w
       = up_loop d kw ((os_path_dirname ^^ n) c) ((print (up_message kw) ^^ n) w)"
proof (induction n arbitrary: c w)
  case 0
  show ?case by simp
next
  case (Suc n)
  from Suc.prems have here: "\<not> kw_dir_at w c kw" "c \<noteq> parent_dir d"
    by force+
  have "\<forall>m<n. \<not> kw_dir_at (print (up_message kw) w) ((os_path_dirname ^^ m) (os_path_dirname c)) kw
          \<and> (os_path_dirname ^^ m) (os_path_dirname c) \<noteq> parent_dir d"
  proof (intro allI impI)
    fix m assume "m < n"
    then have "Suc m < Suc n" by simp
    with Suc.prems have "\<not> kw_dir_at w ((os_path_dirname ^^ Suc m) c) kw
        \<and> (os_path_dirname ^^ Suc m) c \<noteq> parent_dir d"
      by blast
    then show "\<not> kw_dir_at (print (up_message kw) w) ((os_path_dirname ^^ m) (os_path_dirname c)) kw
          \<and> (os_path_dirname ^^ m) (os_path_dirname c) \<noteq> parent_dir d"
      by (simp add: funpow_swap1)
  qed
  from Suc.IH [OF this] up_loop_step [OF here] show ?case
    by (simp add: funpow_swap1)
qed

lemma up_loop_sound:
  assumes "up_loop d kw c w = Some r"
  shows "\<exists>n. snd r = (print (up_message kw) ^^ n) w
     \<and> (\<forall>m<n. \<not> kw_dir_at w ((os_path_dirname ^^ m) c) kw \<and> (os_path_dirname ^^ m) c \<noteq> parent_dir d)
     \<and> (case fst r of
          Some p \<Rightarrow> p = os_path_join (Abs ((os_path_dirname ^^ n) c)) kw
                     \<and> kw_dir_at w ((os_path_dirname ^^ n) c) kw
        | None \<Rightarrow> \<not> kw_dir_at w ((os_path_dirname ^^ n) c) kw \<and> (os_path_dirname ^^ n) c = parent_dir d)"
proof (rule up_loop.raw_induct [where P = "\<lambda>d kw c w r. \<exists>n. snd r = (print (up_message kw) ^^ n) w
     \<and> (\<forall>m<n. \<not> kw_dir_at w ((os_path_dirname ^^ m) c) kw \<and> (os_path_dirname ^^ m) c \<noteq> parent_dir d)
     \<and> (case fst r of
          Some p \<Rightarrow> p = os_path_join (Abs ((os_path_dirname ^^ n) c)) kw
                     \<and> kw_dir_at w ((os_path_dirname ^^ n) c) kw
        | None \<Rightarrow> \<not> kw_dir_at w ((os_path_dirname ^^ n) c) kw \<and> (os_path_dirname ^^ n) c = parent_dir d)",
      OF _ assms])
  fix f d kw c w r
  assume IH: "\<And>d kw c w r. f d kw c w = Some r \<Longrightarrow>
      \<exists>n. snd r = (print (up_message kw) ^^ n) w
     \<and> (\<forall>m<n. \<not> kw_dir_at w ((os_path_dirname ^^ m) c) kw \<and> (os_path_dirname ^^ m) c \<noteq> parent_dir d)
     \<and> (case fst r of
          Some p \<Rightarrow> p = os_path_join (Abs ((os_path_dirname ^^ n) c)) kw
                     \<and> kw_dir_at w ((os_path_dirname ^^ n) c) kw
        | None \<Rightarrow> \<not> kw_dir_at w ((os_path_dirname ^^ n) c) kw \<and> (os_path_dirname ^^ n) c = parent_dir d)"
    and eq: "(if os_path_exists w (os_path_join (Abs c) kw) \<and> os_path_isdir w (os_path_join (Abs c) kw)
         then Some (Some (os_path_join (Abs c) kw), w)
         else if c = parent_dir d then Some (None, w)
         else f d kw (os_path_dirname c) (print (up_message kw) w)) = Some r"
  let ?Q = "\<lambda>n. snd r = (print (up_message kw) ^^ n) w
     \<and> (\<forall>m<n. \<not> kw_dir_at w ((os_path_dirname ^^ m) c) kw \<and> (os_path_dirname ^^ m) c \<noteq> parent_dir d)
     \<and> (case fst r of
          Some p \<Rightarrow> p = os_path_join (Abs ((os_path_dirname ^^ n) c)) kw
                     \<and> kw_dir_at w ((os_path_dirname ^^ n) c) kw
        | None \<Rightarrow> \<not> kw_dir_at w ((os_path_dirname ^^ n) c) kw \<and> (os_path_dirname ^^ n) c = parent_dir d)"
  show "\<exists>n. ?Q n"
  proof (cases "kw_dir_at w c kw")
    case True
    with eq have "r = (Some (os_path_join (Abs c) kw), w)"
      by (simp add: kw_dir_at_def)
    with True have "?Q 0" by simp
    then show ?thesis ..
  next
    case False
    show ?thesis
    proof (cases "c = parent_dir d")
      case True
      with False eq have "r = (None, w)"
        by (auto simp: kw_dir_at_def)
      with True False have "?Q 0" by simp
      then show ?thesis ..
    next
      case neq: False
      with False eq have "f d kw (os_path_dirname c) (print (up_message kw) w) = Some r"
        by (auto simp: kw_dir_at_def)
      from IH [OF this] obtain n where n:
        "snd r = (print (up_message kw) ^^ n) (print (up_message kw) w)"
        "\<forall>m<n. \<not> kw_dir_at (print (up_message kw) w) ((os_path_dirname ^^ m) (os_path_dirname c)) kw
              \<and> (os_path_dirname ^^ m) (os_path_dirname c) \<noteq> parent_dir d"
        "case fst r of
          Some p \<Rightarrow> p = os_path_join (Abs ((os_path_dirname ^^ n) (os_path_dirname c))) kw
                     \<and> kw_dir_at (print (up_message kw) w) ((os_path_dirname ^^ n) (os_path_dirname c)) kw
        | None \<Rightarrow> \<not> kw_dir_at (print (up_message kw) w) ((os_path_dirname ^^ n) (os_path_dirname c)) kw
                     \<and> (os_path_dirname ^^ n) (os_path_dirname c) = parent_dir d"
        by blast
      have "\<forall>m<Suc n. \<not> kw_dir_at w ((os_path_dirname ^^ m) c) kw \<and> (os_path_dirname ^^ m) c \<noteq> parent_dir d"
      proof (intro allI impI)
        fix m assume "m < Suc n"
        show "\<not> kw_dir_at w ((os_path_dirname ^^ m) c) kw \<and> (os_path_dirname ^^ m) c \<noteq> parent_dir d"
        proof (cases m)
          case 0
          with False neq show ?thesis by simp
        next
          case (Suc k)
          with \<open>m < Suc n\<close> have "k < n" by simp
          with n(2) Suc show ?thesis by (simp add: funpow_swap1)
        qed
      qed
      with n(1,3) have "?Q (Suc n)"
        by (auto simp: funpow_swap1 split: option.splits)
      then show ?thesis ..
    qed
  qed
qed


lemma find_up_none_iff:
  "find_closest_kw_folder_up d w kw = Some (None, w') \<longleftrightarrow>
     (\<exists>n. (os_path_dirname ^^ n) (cwd d) = parent_dir d
        \<and> (\<forall>m<n. (os_path_dirname ^^ m) (cwd d) \<noteq> parent_dir d)
        \<and> (\<forall>m\<le>n. \<not> kw_dir_at w ((os_path_dirname ^^ m) (cwd d)) kw)
        \<and> w' = (print (up_message kw) ^^ n) w)"
  (is "?L \<longleftrightarrow> ?R")
proof
  assume ?L
  then have "up_loop d kw (cwd d) w = Some (None, w')"
    by (simp add: find_closest_kw_folder_up_def)
  from up_loop_sound [OF this] obtain n where n:
    "w' = (print (up_message kw) ^^ n) w"
    "\<forall>m<n. \<not> kw_dir_at w ((os_path_dirname ^^ m) (cwd d)) kw
        \<and> (os_path_dirname ^^ m) (cwd d) \<noteq> parent_dir d"
    "\<not> kw_dir_at w ((os_path_dirname ^^ n) (cwd d)) kw"
    "(os_path_dirname ^^ n) (cwd d) = parent_dir d"
    by auto
  have "\<forall>m\<le>n. \<not> kw_dir_at w ((os_path_dirname ^^ m) (cwd d)) kw"
  proof (intro allI impI)
    fix m assume "m \<le> n"
    then have "m < n \<or> m = n" by auto
    with n(2,3) show "\<not> kw_dir_at w ((os_path_dirname ^^ m) (cwd d)) kw" by blast
  qed
  with n show ?R by blast
next
  assume ?R
  then obtain n where n:
    "(os_path_dirname ^^ n) (cwd d) = parent_dir d"
    "\<forall>m<n. (os_path_dirname ^^ m) (cwd d) \<noteq> parent_dir d"
    "\<forall>m\<le>n. \<not> kw_dir_at w ((os_path_dirname ^^ m) (cwd d)) kw"
    "w' = (print (up_message kw) ^^ n) w"
    by blast
  from n(2,3) have "\<forall>m<n. \<not> kw_dir_at w ((os_path_dirname ^^ m) (cwd d)) kw
        \<and> (os_path_dirname ^^ m) (cwd d) \<noteq> parent_dir d"
    by simp
  from up_loop_climb [OF this]
  have "up_loop d kw (cwd d) w
      = up_loop d kw ((os_path_dirname ^^ n) (cwd d)) ((print (up_message kw) ^^ n) w)" .
  also have "\<dots> = Some (None, (print (up_message kw) ^^ n) w)"
  proof (rule up_loop_stop)
    from n(3) have "\<not> kw_dir_at w ((os_path_dirname ^^ n) (cwd d)) kw"
      by blast
    then show "\<not> kw_dir_at ((print (up_message kw) ^^ n) w) ((os_path_dirname ^^ n) (cwd d)) kw"
      by simp
    show "(os_path_dirname ^^ n) (cwd d) = parent_dir d"
      by (rule n(1))
  qed
  finally show ?L
    using n(4) by (simp add: find_closest_kw_folder_up_def)
qed

lemma find_up_some_iff:
  "find_closest_kw_folder_up d w kw = Some (Some p, w') \<longleftrightarrow>
     (\<exists>n. p = os_path_join (Abs ((os_path_dirname ^^ n) (cwd d))) kw
        \<and> kw_dir_at w ((os_path_dirname ^^ n) (cwd d)) kw
        \<and> (\<forall>m<n. \<not> kw_dir_at w ((os_path_dirname ^^ m) (cwd d)) kw
                  \<and> (os_path_dirname ^^ m) (cwd d) \<noteq> parent_dir d)
        \<and> w' = (print (up_message kw) ^^ n) w)"
  (is "?L \<longleftrightarrow> ?R")
proof
  assume ?L
  then have "up_loop d kw (cwd d) w = Some (Some p, w')"
    by (simp add: find_closest_kw_folder_up_def)
  from up_loop_sound [OF this] show ?R
    by auto
next
  assume ?R
  then obtain n where n:
    "p = os_path_join (Abs ((os_path_dirname ^^ n) (cwd d))) kw"
    "kw_dir_at w ((os_path_dirname ^^ n) (cwd d)) kw"
    "\<forall>m<n. \<not> kw_dir_at w ((os_path_dirname ^^ m) (cwd d)) kw
        \<and> (os_path_dirname ^^ m) (cwd d) \<noteq> parent_dir d"
    "w' = (print (up_message kw) ^^ n) w"
    by blast
  from up_loop_climb [OF n(3)]
  have "up_loop d kw (cwd d) w
      = up_loop d kw ((os_path_dirname ^^ n) (cwd d)) ((print (up_message kw) ^^ n) w)" .
  also have "\<dots> = Some (Some p, (print (up_message kw) ^^ n) w)"
    using n(1,2) by (simp add: up_loop_found)
  finally show ?L
    using n(4) by (simp add: find_closest_kw_folder_up_def)
qed

lemma find_up_grandparent:
  assumes "kw_dir_at w (os_path_dirname (os_path_dirname (cwd d))) kw"
    and "\<not> kw_dir_at w (cwd d) kw" and "\<not> kw_dir_at w (os_path_dirname (cwd d)) kw"
    and "parent_dir d \<noteq> cwd d" and "parent_dir d \<noteq> os_path_dirname (cwd d)"
  shows "find_closest_kw_folder_up d w kw
       = Some (Some (os_path_join (Abs (os_path_dirname (os_path_dirname (cwd d)))) kw),
               print (up_message kw) (print (up_message kw) w))"
proof -
  have "up_loop d kw (cwd d) w = up_loop d kw (os_path_dirname (cwd d)) (print (up_message kw) w)"
    using assms(2,4) by (intro up_loop_step) auto
  also have "\<dots> = up_loop d kw (os_path_dirname (os_path_dirname (cwd d)))
                     (print (up_message kw) (print (up_message kw) w))"
    using assms(3,5) by (intro up_loop_step) auto
  also have "\<dots> = Some (Some (os_path_join (Abs (os_path_dirname (os_path_dirname (cwd d)))) kw),
               print (up_message kw) (print (up_message kw) w))"
    using assms(1) by (intro up_loop_found) simp
  finally show ?thesis
    by (simp add: find_closest_kw_folder_up_def)
qed

text \<open>
  Where no path on the way up holds the directory and none is the cached parent path,
  the call does not return: the loop stays at the root.
\<close>

lemma find_up_never_returns:
  assumes "\<forall>n. \<not> kw_dir_at w ((os_path_dirname ^^ n) (cwd d)) kw
              \<and> (os_path_dirname ^^ n) (cwd d) \<noteq> parent_dir d"
  shows "find_closest_kw_folder_up d w kw = None"
proof (rule ccontr)
  assume "find_closest_kw_folder_up d w kw \<noteq> None"
  then obtain r where "up_loop d kw (cwd d) w = Some r"
    by (auto simp: find_closest_kw_folder_up_def)
  from up_loop_sound [OF this] obtain n where
    "case fst r of
       Some p \<Rightarrow> p = os_path_join (Abs ((os_path_dirname ^^ n) (cwd d))) kw
                  \<and> kw_dir_at w ((os_path_dirname ^^ n) (cwd d)) kw
     | None \<Rightarrow> \<not> kw_dir_at w ((os_path_dirname ^^ n) (cwd d)) kw
                  \<and> (os_path_dirname ^^ n) (cwd d) = parent_dir d"
    by blast
  with assms show False
    by (cases "fst r") auto
qed

lemma find_up_fresh:
  assumes "parent_dir d = os_path_dirname (cwd d)" and "parent_dir d \<noteq> cwd d"
    and "\<not> kw_dir_at w (cwd d) kw" and "\<not> kw_dir_at w (os_path_dirname (cwd d)) kw"
  shows "find_closest_kw_folder_up d w kw = Some (None, print (up_message kw) w)"
proof -
  have "up_loop d kw (cwd d) w = up_loop d kw (os_path_dirname (cwd d)) (print (up_message kw) w)"
    using assms(2,3) by (intro up_loop_step) auto
  also have "\<dots> = Some (None, print (up_message kw) w)"
    using assms(1,4) by (intro up_loop_stop) simp_all
  finally show ?thesis
    by (simp add: find_closest_kw_folder_up_def)
qed

lemma funpow_dirname: "(os_path_dirname ^^ n) p = take (length p - n) p"
proof (induction n)
  case 0
  show ?case by simp
next
  case (Suc n)
  have "butlast (take (length p - n) p) = take (length p - n - 1) p"
    by (simp add: butlast_take)
  with Suc show ?case
    by (simp add: os_path_dirname_def)
qed

text \<open>
  C1. \<^verbatim>\<open>find_closest_kw_folder_up\<close> starts at the current path and goes from each path to
  its parent, printing one line for each step. It returns a path exactly when that path
  is the directory \<open>kw\<close> in the first path on the way that has one, and the cached
  \<^verbatim>\<open>parent_dir\<close> was not passed before; it returns \<^verbatim>\<open>None\<close> exactly when it comes to the
  cached \<^verbatim>\<open>parent_dir\<close> with no such directory in any path on the way. So an object as the
  constructor leaves it looks into its current path and the parent of that and no
  further: whatever lies above, the call returns \<^verbatim>\<open>None\<close> after one step. And where no
  path on the way is the cached \<^verbatim>\<open>parent_dir\<close> and none holds the directory, the call
  does not return.
\<close>

theorem find_closest_kw_folder_up_result:
  "(find_closest_kw_folder_up d w kw = Some (None, w') \<longleftrightarrow>
      (\<exists>n. (os_path_dirname ^^ n) (cwd d) = parent_dir d
         \<and> (\<forall>m<n. (os_path_dirname ^^ m) (cwd d) \<noteq> parent_dir d)
         \<and> (\<forall>m\<le>n. \<not> kw_dir_at w ((os_path_dirname ^^ m) (cwd d)) kw)
         \<and> w' = (print (up_message kw) ^^ n) w))
   \<and> (find_closest_kw_folder_up d w kw = Some (Some p, w') \<longleftrightarrow>
      (\<exists>n. p = os_path_join (Abs ((os_path_dirname ^^ n) (cwd d))) kw
         \<and> kw_dir_at w ((os_path_dirname ^^ n) (cwd d)) kw
         \<and> (\<forall>m<n. \<not> kw_dir_at w ((os_path_dirname ^^ m) (cwd d)) kw
                   \<and> (os_path_dirname ^^ m) (cwd d) \<noteq> parent_dir d)
         \<and> w' = (print (up_message kw) ^^ n) w))
   \<and> (parent_dir d = os_path_dirname (cwd d) \<and> parent_dir d \<noteq> cwd d
        \<and> \<not> kw_dir_at w (cwd d) kw \<and> \<not> kw_dir_at w (os_path_dirname (cwd d)) kw
      \<longrightarrow> find_closest_kw_folder_up d w kw = Some (None, print (up_message kw) w))
   \<and> ((\<forall>n. \<not> kw_dir_at w ((os_path_dirname ^^ n) (cwd d)) kw
            \<and> (os_path_dirname ^^ n) (cwd d) \<noteq> parent_dir d)
      \<longrightarrow> find_closest_kw_folder_up d w kw = None)"
proof (intro conjI impI)
  show "find_closest_kw_folder_up d w kw = Some (None, w') \<longleftrightarrow>
      (\<exists>n. (os_path_dirname ^^ n) (cwd d) = parent_dir d
         \<and> (\<forall>m<n. (os_path_dirname ^^ m) (cwd d) \<noteq> parent_dir d)
         \<and> (\<forall>m\<le>n. \<not> kw_dir_at w ((os_path_dirname ^^ m) (cwd d)) kw)
         \<and> w' = (print (up_message kw) ^^ n) w)"
    by (rule find_up_none_iff)
  show "find_closest_kw_folder_up d w kw = Some (Some p, w') \<longleftrightarrow>
      (\<exists>n. p = os_path_join (Abs ((os_path_dirname ^^ n) (cwd d))) kw
         \<and> kw_dir_at w ((os_path_dirname ^^ n) (cwd d)) kw
         \<and> (\<forall>m<n. \<not> kw_dir_at w ((os_path_dirname ^^ m) (cwd d)) kw
                   \<and> (os_path_dirname ^^ m) (cwd d) \<noteq> parent_dir d)
         \<and> w' = (print (up_message kw) ^^ n) w)"
    by (rule find_up_some_iff)
next
  assume h: "parent_dir d = os_path_dirname (cwd d) \<and> parent_dir d \<noteq> cwd d
        \<and> \<not> kw_dir_at w (cwd d) kw \<and> \<not> kw_dir_at w (os_path_dirname (cwd d)) kw"
  show "find_closest_kw_folder_up d w kw = Some (None, print (up_message kw) w)"
    by (rule find_up_fresh [OF h [THEN conjunct1] h [THEN conjunct2, THEN conjunct1]
          h [THEN conjunct2, THEN conjunct2, THEN conjunct1]
          h [THEN conjunct2, THEN conjunct2, THEN conjunct2]])
next
  assume "\<forall>n. \<not> kw_dir_at w ((os_path_dirname ^^ n) (cwd d)) kw
            \<and> (os_path_dirname ^^ n) (cwd d) \<noteq> parent_dir d"
  then show "find_closest_kw_folder_up d w kw = None"
    by (rule find_up_never_returns)
qed

text \<open>
  The object constructed in \<^verbatim>\<open>/g/p/c\<close> does not find \<^verbatim>\<open>/g/data\<close>, the directory of that
  name in its grandparent. Moved to \<^verbatim>\<open>/g/data\<close> it never comes to \<^verbatim>\<open>/g/p\<close> again, and a
  search for a name that no directory above it has does not end.
\<close>

theorem find_closest_kw_folder_up_result_witness:
  "init (ex_world [''g'', ''p'', ''c'']) = Inr (ex_obj [''g'', ''p'', ''c''])
   \<and> kw_dir_at (ex_world [''g'', ''p'', ''c''])
        (os_path_dirname (os_path_dirname (cwd (ex_obj [''g'', ''p'', ''c''])))) ''data''
   \<and> find_closest_kw_folder_up (ex_obj [''g'', ''p'', ''c'']) (ex_world [''g'', ''p'', ''c'']) ''data''
     = Some (None, print (up_message ''data'') (ex_world [''g'', ''p'', ''c'']))
   \<and> shift_dir (ex_obj [''g'', ''p'', ''c'']) (ex_world [''g'', ''p'', ''c'']) (Abs [''g'', ''data''])
     = Inr (ex_strayed, ex_world [''g'', ''data''])
   \<and> find_closest_kw_folder_up ex_strayed (ex_world [''g'', ''data'']) ''zz'' = None"
proof -
  let ?w = "ex_world [''g'', ''p'', ''c'']" and ?d = "ex_obj [''g'', ''p'', ''c'']"
  have i: "init ?w = Inr ?d"
    by (simp add: init_def os_defs ex_world_def ex_obj_def ex_fs_def)
  have k: "kw_dir_at ?w [''g''] ''data''"
    "\<not> kw_dir_at ?w [''g'', ''p''] ''data''"
    "\<not> kw_dir_at ?w [''g'', ''p'', ''c''] ''data''"
    by (simp_all add: kw_dir_at_def os_defs ex_world_def ex_fs_def)
  have fresh: "parent_dir ?d = os_path_dirname (cwd ?d) \<and> parent_dir ?d \<noteq> cwd ?d
        \<and> \<not> kw_dir_at ?w (cwd ?d) ''data'' \<and> \<not> kw_dir_at ?w (os_path_dirname (cwd ?d)) ''data''"
    using k by (simp add: ex_obj_def os_path_dirname_def)
  from find_closest_kw_folder_up_result [of ?d ?w "''data''", THEN conjunct2, THEN conjunct2,
         THEN conjunct1, rule_format, OF fresh]
  have r: "find_closest_kw_folder_up ?d ?w ''data'' = Some (None, print (up_message ''data'') ?w)" .
  have s: "shift_dir ?d ?w (Abs [''g'', ''data'']) = Inr (ex_strayed, ex_world [''g'', ''data''])"
    by (simp add: shift_dir_def os_defs ex_world_def ex_obj_def ex_strayed_def ex_fs_def)
  have never: "\<forall>n. \<not> kw_dir_at (ex_world [''g'', ''data'']) ((os_path_dirname ^^ n) (cwd ex_strayed)) ''zz''
            \<and> (os_path_dirname ^^ n) (cwd ex_strayed) \<noteq> parent_dir ex_strayed"
  proof
    fix n :: nat
    consider "n = 0" | "n = 1" | "2 \<le> n" by linarith
    then show "\<not> kw_dir_at (ex_world [''g'', ''data'']) ((os_path_dirname ^^ n) (cwd ex_strayed)) ''zz''
            \<and> (os_path_dirname ^^ n) (cwd ex_strayed) \<noteq> parent_dir ex_strayed"
      by cases (simp_all add: funpow_dirname ex_strayed_def kw_dir_at_def os_defs ex_world_def ex_fs_def)
  qed
  from find_closest_kw_folder_up_result [of ex_strayed "ex_world [''g'', ''data'']" "''zz''",
         THEN conjunct2, THEN conjunct2, THEN conjunct2, rule_format, OF never [rule_format]]
  have n: "find_closest_kw_folder_up ex_strayed (ex_world [''g'', ''data'']) ''zz'' = None" .
  from i k(1) r s n show ?thesis
    by (simp add: ex_obj_def os_path_dirname_def)
qed

section \<open>Searching downwards for a folder\<close>

lemma find_append_list:
  "find P (xs @ ys) = (case find P xs of None \<Rightarrow> find P ys | Some x \<Rightarrow> Some x)"
  by (induction xs) auto

lemma find_map_list: "find P (map f xs) = map_option f (find (\<lambda>x. P (f x)) xs)"
  by (induction xs) auto

lemma scan_dirs_fst:
  "fst (scan_dirs kw root_dir dirs w)
     = map_option Abs (find (name_contains kw) (map (\<lambda>dn. root_dir @ [dn]) dirs))"
  by (induction dirs arbitrary: w) (auto simp: os_path_join_def name_contains_def)

lemma candidates_triple [simp]:
  "candidates (root_dir, dirs, fnames) = map (\<lambda>dn. root_dir @ [dn]) dirs"
  by (simp add: candidates_def)

lemma down_loop_fst:
  "fst (down_loop kw triples w)
     = map_option Abs (find (name_contains kw) (concat (map candidates triples)))"
proof (induction triples arbitrary: w)
  case Nil
  show ?case by simp
next
  case (Cons t triples)
  obtain root_dir dirs fnames where t: "t = (root_dir, dirs, fnames)"
    by (cases t) auto
  obtain r w' where s: "scan_dirs kw root_dir dirs w = (r, w')"
    by (cases "scan_dirs kw root_dir dirs w") auto
  with scan_dirs_fst [of kw root_dir dirs w]
  have r: "r = map_option Abs (find (name_contains kw) (map (\<lambda>dn. root_dir @ [dn]) dirs))"
    by simp
  show ?case
  proof (cases "find (name_contains kw) (map (\<lambda>dn. root_dir @ [dn]) dirs)")
    case None
    with r have "r = None" by simp
    with None s t Cons.IH [of w'] show ?thesis
      by (simp add: find_append_list)
  next
    case (Some q)
    with r have "r = Some (Abs q)" by simp
    with Some s t show ?thesis
      by (simp add: find_append_list)
  qed
qed

lemma candidates_os_walk:
  "concat (map candidates (os_walk p nd)) = walk_order p nd"
proof (induction p nd rule: os_walk.induct)
  case (1 dirpath st c)
  show ?case by simp
next
  case (2 dirpath st es)
  have "concat (map candidates (concat (map (\<lambda>e. if is_dir (snd e) then os_walk (dirpath @ [fst e]) (snd e) else []) es)))
      = concat (map (\<lambda>e. if is_dir (snd e) then walk_order (dirpath @ [fst e]) (snd e) else []) es)"
    using "2.IH"
  proof (induction es)
    case Nil
    show ?case by simp
  next
    case (Cons e es)
    then show ?case by auto
  qed
  then show ?case
    by (simp add: comp_def)
qed

lemma find_down_walk_order:
  "fst (find_closest_kw_folder_down d w kw)
     = (case fs_lookup (fs w) (cwd d) of
          None \<Rightarrow> None
        | Some nd \<Rightarrow> map_option Abs (find (name_contains kw) (walk_order (cwd d) nd)))"
  by (simp add: find_closest_kw_folder_down_def os_walk_path_def down_loop_fst candidates_os_walk
           split: option.splits)


lemma set_walk_order: "set (walk_order p nd) = set (preorder_subdirs p nd)"
proof (induction p nd rule: walk_order.induct)
  case (1 p st c)
  show ?case by simp
next
  case (2 p st es)
  have "(\<Union>e\<in>set es. if is_dir (snd e) then set (walk_order (p @ [fst e]) (snd e)) else {})
      = (\<Union>e\<in>set es. if is_dir (snd e) then set (preorder_subdirs (p @ [fst e]) (snd e)) else {})"
    using "2.IH" by (intro SUP_cong) auto
  then show ?case
    by (auto split: if_splits)
qed

lemma walk_order_names: "q \<in> set (walk_order p nd) \<Longrightarrow> q \<noteq> []"
  by (induction p nd rule: walk_order.induct) (auto split: if_splits)

lemma find_down_none_iff:
  assumes "fs_lookup (fs w) (cwd d) = Some nd"
  shows "fst (find_closest_kw_folder_down d w kw) = None
     \<longleftrightarrow> find (name_contains kw) (preorder_subdirs (cwd d) nd) = None"
  using assms by (simp add: find_down_walk_order find_None_iff set_walk_order)

lemma find_down_some:
  assumes "fs_lookup (fs w) (cwd d) = Some nd"
    and "fst (find_closest_kw_folder_down d w kw) = Some (Abs q)"
  shows "q \<in> set (preorder_subdirs (cwd d) nd) \<and> name_contains kw q"
proof -
  from assms have "find (name_contains kw) (walk_order (cwd d) nd) = Some q"
    by (auto simp: find_down_walk_order)
  then have "q \<in> set (walk_order (cwd d) nd) \<and> name_contains kw q"
    by (auto simp: find_Some_iff)
  then show ?thesis
    by (simp add: set_walk_order)
qed

lemma contains_data: "contains ''data'' ''data''" "\<not> contains ''x'' ''data''" "\<not> contains ''y'' ''data''"
  by (simp_all add: contains_def sublist_code)

lemma find_down_scenario:
  assumes "fs_lookup (fs w) (cwd d) = Some nd"
    and "nd = Dir st [(''x'', Dir sx []), (''y'', Dir sy [(''data'', Dir sd [])])]
       \<or> nd = Dir st [(''y'', Dir sy [(''data'', Dir sd [])]), (''x'', Dir sx [])]"
  shows "fst (find_closest_kw_folder_down d w ''data'') = Some (Abs (cwd d @ [''y'', ''data'']))"
  using assms by (auto simp: find_down_walk_order name_contains_def contains_data)

text \<open>
  C6 (as amended). Where the current path is a directory, \<^verbatim>\<open>find_closest_kw_folder_down\<close>
  returns the first path, in the order of \<^verbatim>\<open>os.walk\<close>, whose name contains the keyword:
  the subdirectories of a directory are tested, in the order of its listing, before
  anything deeper. It returns \<^verbatim>\<open>None\<close> exactly when the pre-order traversal of the
  specification has no match, and a path it returns is a directory of that traversal
  whose name contains the keyword. Where the current path holds just \<^verbatim>\<open>x\<close> and \<^verbatim>\<open>y/data\<close>,
  in either order, the search for \<^verbatim>\<open>data\<close> returns the path of \<^verbatim>\<open>y/data\<close>.
\<close>

theorem find_closest_kw_folder_down_result:
  assumes "fs_lookup (fs w) (cwd d) = Some nd"
  shows "fst (find_closest_kw_folder_down d w kw)
           = map_option Abs (find (name_contains kw) (walk_order (cwd d) nd))
       \<and> (fst (find_closest_kw_folder_down d w kw) = None
            \<longleftrightarrow> find (name_contains kw) (preorder_subdirs (cwd d) nd) = None)
       \<and> (\<forall>q. fst (find_closest_kw_folder_down d w kw) = Some (Abs q)
            \<longrightarrow> q \<in> set (preorder_subdirs (cwd d) nd) \<and> name_contains kw q)
       \<and> (\<forall>st sx sy sd.
             nd = Dir st [(''x'', Dir sx []), (''y'', Dir sy [(''data'', Dir sd [])])]
             \<or> nd = Dir st [(''y'', Dir sy [(''data'', Dir sd [])]), (''x'', Dir sx [])]
            \<longrightarrow> fst (find_closest_kw_folder_down d w ''data'') = Some (Abs (cwd d @ [''y'', ''data''])))"
proof (intro conjI allI impI)
  show "fst (find_closest_kw_folder_down d w kw)
           = map_option Abs (find (name_contains kw) (walk_order (cwd d) nd))"
    using find_down_walk_order [of d w kw] assms by simp
  show "fst (find_closest_kw_folder_down d w kw) = None
            \<longleftrightarrow> find (name_contains kw) (preorder_subdirs (cwd d) nd) = None"
    by (rule find_down_none_iff [OF assms])
next
  fix q assume "fst (find_closest_kw_folder_down d w kw) = Some (Abs q)"
  with assms have "q \<in> set (preorder_subdirs (cwd d) nd) \<and> name_contains kw q"
    by (rule find_down_some)
  then show "q \<in> set (preorder_subdirs (cwd d) nd)" and "name_contains kw q"
    by simp_all
next
  fix st sx sy sd
  assume "nd = Dir st [(''x'', Dir sx []), (''y'', Dir sy [(''data'', Dir sd [])])]
             \<or> nd = Dir st [(''y'', Dir sy [(''data'', Dir sd [])]), (''x'', Dir sx [])]"
  with assms show "fst (find_closest_kw_folder_down d w ''data'') = Some (Abs (cwd d @ [''y'', ''data'']))"
    by (rule find_down_scenario)
qed

theorem find_closest_kw_folder_down_result_witness:
  "fs_lookup (fs (ex_tree_world [''s''])) (cwd (ex_obj [''s'']))
     = Some (Dir st_dir [(''x'', Dir st_dir []), (''y'', Dir st_dir [(''data'', Dir st_dir [])])])
   \<and> fst (find_closest_kw_folder_down (ex_obj [''s'']) (ex_tree_world [''s'']) ''data'')
     = Some (Abs [''s'', ''y'', ''data''])"
proof -
  have l: "fs_lookup (fs (ex_tree_world [''s''])) (cwd (ex_obj [''s'']))
     = Some (Dir st_dir [(''x'', Dir st_dir []), (''y'', Dir st_dir [(''data'', Dir st_dir [])])])"
    by (simp add: ex_tree_world_def ex_obj_def ex_tree_def)
  from find_closest_kw_folder_down_result [OF l, of "''data''", THEN conjunct2, THEN conjunct2,
         THEN conjunct2, rule_format, of st_dir st_dir st_dir st_dir]
  have "fst (find_closest_kw_folder_down (ex_obj [''s'']) (ex_tree_world [''s'']) ''data'')
     = Some (Abs (cwd (ex_obj [''s'']) @ [''y'', ''data'']))"
    by simp
  with l show ?thesis
    by (simp add: ex_obj_def)
qed

text \<open>
  The result is not the first match of the pre-order traversal: in \<^verbatim>\<open>/t\<close>, with the
  entries \<^verbatim>\<open>a/data\<close> and \<^verbatim>\<open>data2\<close>, pre-order meets \<^verbatim>\<open>a/data\<close> before \<^verbatim>\<open>data2\<close>, and the
  method returns \<^verbatim>\<open>data2\<close>, which it tests together with \<^verbatim>\<open>a\<close> before it goes into \<^verbatim>\<open>a\<close>.
\<close>

theorem find_closest_kw_folder_down_not_preorder:
  "fs_lookup (fs (ex_tree_world [''t''])) (cwd (ex_obj [''t'']))
     = Some (Dir st_dir [(''a'', Dir st_dir [(''data'', Dir st_dir [])]), (''data2'', Dir st_dir [])])
   \<and> fst (find_closest_kw_folder_down (ex_obj [''t'']) (ex_tree_world [''t'']) ''data'')
     = Some (Abs [''t'', ''data2''])
   \<and> find (name_contains ''data'')
        (preorder_subdirs [''t'']
           (Dir st_dir [(''a'', Dir st_dir [(''data'', Dir st_dir [])]), (''data2'', Dir st_dir [])]))
     = Some [''t'', ''a'', ''data'']"
proof -
  have c: "contains ''data2'' ''data''" "\<not> contains ''a'' ''data''" "contains ''data'' ''data''"
    by (simp_all add: contains_def sublist_code)
  have l: "fs_lookup (fs (ex_tree_world [''t''])) (cwd (ex_obj [''t'']))
     = Some (Dir st_dir [(''a'', Dir st_dir [(''data'', Dir st_dir [])]), (''data2'', Dir st_dir [])])"
    by (simp add: ex_tree_world_def ex_obj_def ex_tree_def)
  have code: "fst (find_closest_kw_folder_down (ex_obj [''t'']) (ex_tree_world [''t'']) ''data'')
     = Some (Abs [''t'', ''data2''])"
    using l by (simp add: find_down_walk_order name_contains_def c ex_obj_def)
  have spec: "find (name_contains ''data'')
        (preorder_subdirs [''t'']
           (Dir st_dir [(''a'', Dir st_dir [(''data'', Dir st_dir [])]), (''data2'', Dir st_dir [])]))
     = Some [''t'', ''a'', ''data'']"
    by (simp add: name_contains_def c sort_key_def)
  from l code spec show ?thesis
    by blast
qed

section \<open>Writing a file and reading it back\<close>

lemma fs_lookup_append:
  "fs_lookup nd (p @ q) = (case fs_lookup nd p of None \<Rightarrow> None | Some c \<Rightarrow> fs_lookup c q)"
proof (induction p arbitrary: nd)
  case Nil
  show ?case by simp
next
  case (Cons n p)
  show ?case
  proof (cases nd)
    case (File st c)
    then show ?thesis by simp
  next
    case (Dir st es)
    with Cons.IH show ?thesis by (simp split: option.splits)
  qed
qed

lemma update_absent: "map_of es n = None \<Longrightarrow> AList.update n x es = es @ [(n, x)]"
  by (induction es) (auto split: if_splits)

lemma fs_put_dir_entry:
  "fs_lookup nd p = Some (Dir st es) \<Longrightarrow>
   fs_lookup (fs_put nd (p @ [n]) x) p = Some (Dir st (AList.update n x es))"
proof (induction p arbitrary: nd)
  case Nil
  then show ?case by (simp add: update_absent split: option.splits)
next
  case (Cons m p)
  from Cons.prems obtain st' es' c where nd: "nd = Dir st' es'" and c: "map_of es' m = Some c"
    and l: "fs_lookup c p = Some (Dir st es)"
    by (cases nd) (auto split: option.splits)
  from Cons.IH [OF l] nd c show ?case
    by (simp add: update_conv')
qed

lemma fs_lookup_put_same:
  assumes "fs_lookup nd (butlast p) = Some (Dir st es)" and "p \<noteq> []"
  shows "fs_lookup (fs_put nd p x) p = Some x"
proof -
  from assms(2) obtain q n where p: "p = q @ [n]"
    by (cases p rule: rev_cases) auto
  with assms(1) have "fs_lookup nd q = Some (Dir st es)" by simp
  from fs_put_dir_entry [OF this, of n x] p show ?thesis
    by (simp add: fs_lookup_append [of _ q "[n]"] update_conv')
qed

lemma fs_lookup_parent_dir:
  assumes "fs_lookup nd p = Some y" and "p \<noteq> []"
  shows "\<exists>st es. fs_lookup nd (butlast p) = Some (Dir st es)"
proof -
  from assms(2) obtain q n where p: "p = q @ [n]"
    by (cases p rule: rev_cases) auto
  with assms(1) obtain c where c: "fs_lookup nd q = Some c" and "fs_lookup c [n] = Some y"
    by (auto simp: fs_lookup_append split: option.splits)
  then obtain st es where "c = Dir st es"
    by (cases c) auto
  with c p show ?thesis by simp
qed

lemma write_content_fields [simp]:
  "pcwd (write_content w u s) = pcwd w" "fresh (write_content w u s) = fresh w"
  "stdout (write_content w u s) = stdout w" "environ_HOME (write_content w u s) = environ_HOME w"
  by (simp_all add: write_content_def)

lemma resolve_write_content [simp]: "resolve (write_content w u s) v = resolve w v"
  by (cases v) (simp_all add: resolve_def)

lemma resolve_fs_update [simp]: "resolve (w\<lparr>fs := x\<rparr>) v = resolve w v"
  by (cases v) (simp_all add: resolve_def)

text \<open>What a successful open for writing followed by a write leaves at the path.\<close>

lemma open_w_then_write:
  assumes "open_w w u = Inr w'"
  shows "fs_lookup (fs (write_content w' u s)) (resolve w u) = Some (File (fresh w) s)"
proof (cases "resolve w u = []")
  case True
  from assms have "w' = write_content w u []"
    by (auto simp: open_w_def split: option.splits node.splits)
  with True show ?thesis
    by (simp add: write_content_def)
next
  case ne: False
  let ?p = "resolve w u"
  from assms have w': "w' = write_content w u []"
    by (auto simp: open_w_def split: option.splits node.splits)
  from assms obtain st es where par: "fs_lookup (fs w) (butlast ?p) = Some (Dir st es)"
  proof (cases "fs_lookup (fs w) ?p")
    case None
    with assms that show ?thesis
      by (auto simp: open_w_def split: option.splits node.splits)
  next
    case (Some y)
    from fs_lookup_parent_dir [OF Some ne] that show ?thesis by blast
  qed
  have 1: "fs_lookup (fs w') ?p = Some (File (fresh w) [])"
    using fs_lookup_put_same [OF par ne] by (simp add: w' write_content_def)
  from fs_lookup_parent_dir [OF 1 ne] obtain st' es'
    where "fs_lookup (fs w') (butlast ?p) = Some (Dir st' es')" by blast
  from fs_lookup_put_same [OF this ne, of "File (fresh w) s"] show ?thesis
    by (simp add: write_content_def w')
qed

lemma json_round_trip:
  assumes "save_json json_dump d w x fname = Inr w'" and "round_trips json_dump json_load x"
  shows "load_json json_load d w' fname = Inr (Some x)"
proof -
  let ?u = "os_path_join (Abs (cwd d)) fname"
  from assms(1) obtain w1 s where o: "open_w w ?u = Inr w1" and s: "json_dump x = Some s"
    and w': "w' = write_content w1 ?u s"
    by (auto simp: save_json_def split: sum.splits option.splits)
  from open_w_then_write [OF o, of s] w'
  have "fs_lookup (fs w') (resolve w' ?u) = Some (File (fresh w) s)"
    by (simp add: resolve_def os_path_join_def)
  moreover from assms(2) s have "json_load s = Some x"
    by (simp add: round_trips_def)
  ultimately show ?thesis
    by (simp add: load_json_def os_path_exists_def open_r_def)
qed

lemma pickle_round_trip:
  assumes "save_pickle pickle_dump d w x fname = Inr w'" and "round_trips pickle_dump pickle_load x"
  shows "load_pickle pickle_load d w' fname = Inr (Some x)"
proof -
  let ?u = "os_path_join (Abs (cwd d)) fname"
  from assms(1) obtain w1 s where o: "open_w w ?u = Inr w1" and s: "pickle_dump x = Some s"
    and w': "w' = write_content w1 ?u s"
    by (auto simp: save_pickle_def split: sum.splits option.splits)
  from open_w_then_write [OF o, of s] w'
  have "fs_lookup (fs w') (resolve w' ?u) = Some (File (fresh w) s)"
    by (simp add: resolve_def os_path_join_def)
  moreover from assms(2) s have "pickle_load s = Some x"
    by (simp add: round_trips_def)
  ultimately show ?thesis
    by (simp add: load_pickle_def os_path_exists_def open_r_def)
qed

lemma dfs_pickle_round_trip:
  assumes "save_dict_of_dfs_pickle pickle_dump d w dfs fname = Inr w'"
    and "round_trips pickle_dump pickle_load dfs"
  shows "load_dict_of_dfs_pickle pickle_load d w' fname
       = Inr (Some dfs, print (''DataFrames loaded from pickle object '' @ fname @ '' successfully.'') w')"
proof -
  let ?u = "os_path_join (Abs (cwd d)) fname"
  from assms(1) obtain w1 s where o: "open_w w ?u = Inr w1" and s: "pickle_dump dfs = Some s"
    and w': "w' = print (''DataFrames saved as pickle object to '' @ fname @ '' successfully.'')
                    (write_content w1 ?u s)"
    by (auto simp: save_dict_of_dfs_pickle_def split: sum.splits option.splits)
  from open_w_then_write [OF o, of s] w'
  have "fs_lookup (fs w') (resolve w' ?u) = Some (File (fresh w) s)"
    by (simp add: resolve_def os_path_join_def)
  moreover from assms(2) s have "pickle_load s = Some dfs"
    by (simp add: round_trips_def)
  ultimately show ?thesis
    by (simp add: load_dict_of_dfs_pickle_def os_path_exists_def open_r_def)
qed

lemma strip_slash: "no_slash_ends k \<Longrightarrow> strip CHR ''/'' (CHR ''/'' # k) = k"
proof (cases k)
  case Nil
  then show ?thesis by (simp add: strip_def)
next
  case (Cons c cs)
  assume "no_slash_ends k"
  with Cons have h: "c \<noteq> CHR ''/''" and l: "last (c # cs) \<noteq> CHR ''/''"
    by (simp_all add: no_slash_ends_def)
  from l have "hd (rev (c # cs)) \<noteq> CHR ''/''"
    using hd_rev [of "c # cs"] by simp
  then have "dropWhile (\<lambda>x. x = CHR ''/'') (rev (c # cs)) = rev (c # cs)"
    by (cases "rev (c # cs)") auto
  with h Cons show ?thesis
    by (simp add: strip_def)
qed

lemma fold_update_distinct:
  "distinct (map fst xs) \<Longrightarrow> fst ` set xs \<inter> fst ` set acc = {} \<Longrightarrow>
   fold (\<lambda>(k, t) al. AList.update k t al) xs acc = acc @ xs"
proof (induction xs arbitrary: acc)
  case Nil
  show ?case by simp
next
  case (Cons x xs)
  obtain k t where x: "x = (k, t)" by (cases x) auto
  from Cons.prems x have "map_of acc k = None"
    by (auto simp: map_of_eq_None_iff)
  then have u: "AList.update k t acc = acc @ [(k, t)]"
    by (rule update_absent)
  from Cons.prems x have "distinct (map fst xs)" "fst ` set xs \<inter> fst ` set (acc @ [(k, t)]) = {}"
    by auto
  from Cons.IH [OF this] x u show ?case by simp
qed

lemma hdf5_round_trip:
  assumes "save_dict_of_dfs_hdf5 hdf_dump d w dfs fname = Inr w'"
    and "hdf_round_trips hdf_dump hdf_items dfs"
    and "distinct (map fst dfs)" and "\<forall>k\<in>fst ` set dfs. no_slash_ends k"
  shows "\<exists>loaded. load_dict_of_dfs_hdf5 hdf_items d w' fname
           = Inr (loaded, print (''DataFrames loaded from HDF5 file '' @ fname @ '' successfully.'') w')
       \<and> map_of loaded = map_of dfs"
proof -
  let ?u = "os_path_join (Abs (cwd d)) fname"
  let ?un = "\<lambda>kt. (strip CHR ''/'' (fst kt), snd kt)"
  from assms(1) obtain w1 s where o: "open_w w ?u = Inr w1" and s: "hdf_dump dfs = Some s"
    and w': "w' = print (''DataFrames saved to HDF5 file '' @ fname @ '' successfully.'')
                    (write_content w1 ?u s)"
    by (auto simp: save_dict_of_dfs_hdf5_def split: sum.splits option.splits)
  from open_w_then_write [OF o, of s] w'
  have f: "fs_lookup (fs w') (resolve w' ?u) = Some (File (fresh w) s)"
    by (simp add: resolve_def os_path_join_def)
  from assms(2) s obtain items where i: "hdf_items s = Some items"
    and di: "distinct (map fst items)"
    and si: "set items = set (map (\<lambda>(k, t). (CHR ''/'' # k, t)) dfs)"
    by (auto simp: hdf_round_trips_def)
  have unk: "strip CHR ''/'' (CHR ''/'' # k) = k" if "k \<in> fst ` set dfs" for k
  proof -
    from that assms(4) have "no_slash_ends k" by blast
    then show ?thesis by (simp add: strip_slash)
  qed
  have set_un: "set (map ?un items) = set dfs"
  proof (rule set_eqI)
    fix e
    show "e \<in> set (map ?un items) \<longleftrightarrow> e \<in> set dfs"
    proof
      assume "e \<in> set (map ?un items)"
      then obtain i where i: "i \<in> set items" and e: "e = ?un i" by auto
      from i si obtain k t where kt: "i = (CHR ''/'' # k, t)" "(k, t) \<in> set dfs" by auto
      from kt(2) have "k \<in> fst ` set dfs" by force
      from unk [OF this] e kt show "e \<in> set dfs" by simp
    next
      assume e: "e \<in> set dfs"
      obtain k t where kt: "e = (k, t)" by (cases e)
      from e kt have "k \<in> fst ` set dfs" by force
      from unk [OF this] have u: "?un (CHR ''/'' # k, t) = e" using kt by simp
      from e kt si have "(CHR ''/'' # k, t) \<in> set items" by force
      then have "?un (CHR ''/'' # k, t) \<in> ?un ` set items" by (rule imageI)
      with u show "e \<in> set (map ?un items)" by simp
    qed
  qed
  have "map fst (map ?un items) = map (strip CHR ''/'') (map fst items)"
    by simp
  moreover have "inj_on (strip CHR ''/'') (set (map fst items))"
  proof (rule inj_onI)
    fix x y assume "x \<in> set (map fst items)" and "y \<in> set (map fst items)"
      and eq: "strip CHR ''/'' x = strip CHR ''/'' y"
    then obtain tx ty where x: "(x, tx) \<in> set items" and y: "(y, ty) \<in> set items" by auto
    from x si obtain k where k: "x = CHR ''/'' # k" "(k, tx) \<in> set dfs" by auto
    from y si obtain k' where k': "y = CHR ''/'' # k'" "(k', ty) \<in> set dfs" by auto
    from k(2) have "k \<in> fst ` set dfs" by force
    from unk [OF this] have 1: "strip CHR ''/'' x = k" using k(1) by simp
    from k'(2) have "k' \<in> fst ` set dfs" by force
    from unk [OF this] have 2: "strip CHR ''/'' y = k'" using k'(1) by simp
    from 1 2 eq k(1) k'(1) show "x = y" by simp
  qed
  ultimately have dun: "distinct (map fst (map ?un items))"
    using di by (simp only: distinct_map)
  have "fold (\<lambda>(key, t) al. AList.update (strip CHR ''/'' key) t al) items []
      = fold (\<lambda>(k, t) al. AList.update k t al) (map ?un items) []"
    by (simp add: fold_map comp_def case_prod_unfold)
  also have "\<dots> = map ?un items"
    using fold_update_distinct [OF dun, of "[]"] by simp
  finally have ld: "load_dict_of_dfs_hdf5 hdf_items d w' fname
      = Inr (map ?un items, print (''DataFrames loaded from HDF5 file '' @ fname @ '' successfully.'') w')"
    using f i by (simp add: load_dict_of_dfs_hdf5_def open_r_def)
  have "map_of (map ?un items) = map_of dfs"
    using dun assms(3) set_un by (simp only: map_of_inject_set)
  with ld show ?thesis by blast
qed

lemma split_on_nonempty: "split_on c s \<noteq> []"
  by (induction s) (auto split: list.splits)

lemma hd_split_on: "hd (split_on c s) = takeWhile (\<lambda>x. x \<noteq> c) s"
  by (induction s) (auto split: list.splits simp: split_on_nonempty)

lemma split_on_absent: "c \<notin> set s \<Longrightarrow> split_on c s = [s]"
  by (induction s) auto

lemma path_components_name: "CHR ''/'' \<notin> set n \<Longrightarrow> n \<noteq> [] \<Longrightarrow> path_components n = [n]"
  by (simp add: path_components_def split_on_absent)

lemma resolve_format_path:
  "CHR ''/'' \<notin> set n \<Longrightarrow> n \<noteq> [] \<Longrightarrow> resolve w (format_path folder n) = resolve w folder @ [n]"
  by (cases folder) (simp_all add: format_path_def resolve_def path_components_name)

lemma key_of_csv_name: "hd (split_on CHR ''.'' (k @ ''.csv'')) = before_first_dot k"
  by (simp add: hd_split_on before_first_dot_def takeWhile_append takeWhile_eq_all_conv [THEN iffD2])

lemma endswith_csv: "endswith (k @ ''.csv'') ''.csv''"
  by (simp add: endswith_def suffix_def)

lemma endswith_csvD: "endswith n ''.csv'' \<Longrightarrow> \<exists>k. n = k @ ''.csv''"
  by (auto simp: endswith_def suffix_def)

text \<open>The keys of what the loading loop returns.\<close>

lemma load_csv_loop_keys:
  "load_csv_loop read_csv w folder names acc = Inr dfs' \<Longrightarrow>
   fst ` set dfs' = fst ` set acc \<union> before_first_dot ` {n \<in> set names. endswith n ''.csv''}"
proof (induction names arbitrary: acc)
  case Nil
  then show ?case by simp
next
  case (Cons n names)
  show ?case
  proof (cases "endswith n ''.csv''")
    case False
    with Cons.prems have "load_csv_loop read_csv w folder names acc = Inr dfs'" by simp
    from Cons.IH [OF this] False show ?thesis by auto
  next
    case True
    with Cons.prems obtain s t where
      "load_csv_loop read_csv w folder names (AList.update (hd (split_on CHR ''.'' n)) t acc) = Inr dfs'"
      by (auto split: sum.splits option.splits)
    from Cons.IH [OF this] True show ?thesis
      by (auto simp: dom_update hd_split_on before_first_dot_def)
  qed
qed

lemma load_csv_loop_ok:
  assumes "\<forall>n\<in>set names. endswith n ''.csv'' \<longrightarrow>
     (\<exists>st c. fs_lookup (fs w) (resolve w (format_path folder n)) = Some (File st c)
        \<and> read_csv c = Some (tab n))"
  shows "load_csv_loop read_csv w folder names acc = Inr (fold (load_step tab) names acc)"
  using assms
proof (induction names arbitrary: acc)
  case Nil
  show ?case by simp
next
  case (Cons n names)
  then show ?case
    by (auto simp: load_step_def open_r_def csv_key_def)
qed

lemma fold_load_step_other:
  "\<forall>n\<in>set names. endswith n ''.csv'' \<longrightarrow> csv_key n \<noteq> k \<Longrightarrow>
   map_of (fold (load_step tab) names acc) k = map_of acc k"
  by (induction names arbitrary: acc) (auto simp: load_step_def update_conv')

lemma fold_load_step_value:
  assumes "n \<in> set names" and "endswith n ''.csv''"
    and "\<forall>m\<in>set names. endswith m ''.csv'' \<and> csv_key m = csv_key n \<longrightarrow> tab m = tab n"
  shows "map_of (fold (load_step tab) names acc) (csv_key n) = Some (tab n)"
  using assms
proof (induction names arbitrary: acc n)
  case Nil
  then show ?case by simp
next
  case (Cons m names)
  have rest: "\<forall>x\<in>set names. endswith x ''.csv'' \<and> csv_key x = csv_key n \<longrightarrow> tab x = tab n"
    using Cons.prems(3) by simp
  show ?case
  proof (cases "\<exists>m'\<in>set names. endswith m' ''.csv'' \<and> csv_key m' = csv_key n")
    case True
    then obtain m' where m': "m' \<in> set names" "endswith m' ''.csv''" "csv_key m' = csv_key n"
      by blast
    with rest have t: "tab m' = tab n" by blast
    from rest m'(3) t
    have "\<forall>x\<in>set names. endswith x ''.csv'' \<and> csv_key x = csv_key m' \<longrightarrow> tab x = tab m'"
      by simp
    from Cons.IH [OF m'(1,2) this, of "load_step tab m acc"]
    have "map_of (fold (load_step tab) names (load_step tab m acc)) (csv_key m') = Some (tab m')" .
    with m'(3) t show ?thesis by simp
  next
    case False
    then have "\<forall>x\<in>set names. endswith x ''.csv'' \<longrightarrow> csv_key x \<noteq> csv_key n"
      by blast
    from fold_load_step_other [OF this]
    have 1: "map_of (fold (load_step tab) names (load_step tab m acc)) (csv_key n)
          = map_of (load_step tab m acc) (csv_key n)" .
    from False Cons.prems(1,2) have "m = n" by auto
    with Cons.prems(2) have "map_of (load_step tab m acc) (csv_key n) = Some (tab n)"
      by (simp add: load_step_def update_conv')
    with 1 show ?thesis by simp
  qed
qed

lemma saved_entries_Nil [simp]: "saved_entries fr to_csv [] es = es"
  by (simp add: saved_entries_def)

lemma saved_entries_Cons [simp]:
  "saved_entries fr to_csv ((k, t) # dfs) es
     = saved_entries fr to_csv dfs (AList.update (k @ ''.csv'') (File fr (to_csv t)) es)"
  by (simp add: saved_entries_def)

lemma set_update_cases: "e \<in> set (AList.update k v al) \<Longrightarrow> e = (k, v) \<or> e \<in> set al"
  by (induction al) (auto split: if_splits)

lemma saved_entries_names:
  "fst ` set (saved_entries fr to_csv dfs es)
     = fst ` set es \<union> (\<lambda>k. k @ ''.csv'') ` fst ` set dfs"
proof (induction dfs arbitrary: es)
  case Nil
  show ?case by simp
next
  case (Cons kt dfs)
  obtain k t where kt: "kt = (k, t)" by (cases kt) auto
  from Cons.IH [of "AList.update (k @ ''.csv'') (File fr (to_csv t)) es"] kt
  show ?case by (simp add: dom_update)
qed

lemma saved_entries_other:
  "n \<notin> (\<lambda>k. k @ ''.csv'') ` fst ` set dfs \<Longrightarrow>
   map_of (saved_entries fr to_csv dfs es) n = map_of es n"
proof (induction dfs arbitrary: es)
  case Nil
  show ?case by simp
next
  case (Cons kt dfs)
  obtain k t where kt: "kt = (k, t)" by (cases kt) auto
  from Cons.prems kt have 1: "n \<notin> (\<lambda>k. k @ ''.csv'') ` fst ` set dfs" and 2: "n \<noteq> k @ ''.csv''"
    by auto
  from Cons.IH [OF 1, of "AList.update (k @ ''.csv'') (File fr (to_csv t)) es"] kt 2
  show ?case by (simp add: update_conv')
qed

lemma saved_entries_value:
  "distinct (map fst dfs) \<Longrightarrow> (k, t) \<in> set dfs \<Longrightarrow>
   map_of (saved_entries fr to_csv dfs es) (k @ ''.csv'') = Some (File fr (to_csv t))"
proof (induction dfs arbitrary: es)
  case Nil
  then show ?case by simp
next
  case (Cons kt dfs)
  obtain k' t' where kt: "kt = (k', t')" by (cases kt) auto
  show ?case
  proof (cases "(k, t) \<in> set dfs")
    case True
    with Cons.IH [of "AList.update (k' @ ''.csv'') (File fr (to_csv t')) es"] Cons.prems kt
    show ?thesis by simp
  next
    case False
    with Cons.prems kt have eq: "k' = k" "t' = t" by auto
    with Cons.prems kt have "k \<notin> fst ` set dfs" by auto
    then have "k @ ''.csv'' \<notin> (\<lambda>k. k @ ''.csv'') ` fst ` set dfs" by auto
    from saved_entries_other [OF this] kt eq show ?thesis
      by (simp add: update_conv')
  qed
qed

lemma fs_lookup_in_dir:
  "fs_lookup nd p = Some (Dir st es) \<Longrightarrow> fs_lookup nd (p @ [n]) = map_of es n"
  by (simp add: fs_lookup_append split: option.splits)

lemma save_csv_loop_result:
  assumes "fs_lookup (fs w) (resolve w folder) = Some (Dir st es)"
    and "\<forall>k\<in>fst ` set dfs. CHR ''/'' \<notin> set k"
    and "\<forall>e\<in>set es. endswith (fst e) ''.csv'' \<longrightarrow> is_file (snd e)"
  shows "\<exists>w'. save_csv_loop to_csv w folder dfs = Inr w'
      \<and> pcwd w' = pcwd w \<and> stdout w' = stdout w \<and> fresh w' = fresh w
      \<and> fs_lookup (fs w') (resolve w folder)
          = Some (Dir st (saved_entries (fresh w) to_csv dfs es))"
  using assms
proof (induction dfs arbitrary: w es)
  case Nil
  then show ?case by simp
next
  case (Cons kt dfs)
  obtain k t where kt: "kt = (k, t)" by (cases kt) auto
  let ?n = "k @ ''.csv''"
  let ?u = "format_path folder ?n"
  let ?F = "resolve w folder"
  from Cons.prems(2) kt have "CHR ''/'' \<notin> set ?n" by simp
  then have ru: "resolve w ?u = ?F @ [?n]"
    by (intro resolve_format_path) simp_all
  have look: "fs_lookup (fs w) (?F @ [?n]) = map_of es ?n"
    using Cons.prems(1) by (rule fs_lookup_in_dir)
  have "open_w w ?u = Inr (write_content w ?u [])"
  proof (cases "map_of es ?n")
    case None
    with look ru Cons.prems(1) show ?thesis
      by (simp add: open_w_def)
  next
    case (Some c)
    then have "(?n, c) \<in> set es" by (rule map_of_SomeD)
    with Cons.prems(3) have "is_file c"
      by (force simp: endswith_csv)
    then obtain st' s' where "c = File st' s'" by (cases c) auto
    with Some look ru show ?thesis
      by (simp add: open_w_def)
  qed
  moreover define w2 where "w2 = write_content (write_content w ?u []) ?u (to_csv t)"
  ultimately have step: "save_csv_loop to_csv w folder (kt # dfs) = save_csv_loop to_csv w2 folder dfs"
    using kt by simp
  have f2: "pcwd w2 = pcwd w" "stdout w2 = stdout w" "fresh w2 = fresh w"
    by (simp_all add: w2_def)
  then have r2: "resolve w2 folder = ?F"
    by (cases folder) (simp_all add: resolve_def)
  let ?es1 = "AList.update ?n (File (fresh w) (to_csv t)) es"
  have "fs_lookup (fs (write_content w ?u [])) ?F = Some (Dir st (AList.update ?n (File (fresh w) []) es))"
    using fs_put_dir_entry [OF Cons.prems(1), of ?n] ru by (simp add: write_content_def)
  from fs_put_dir_entry [OF this, of ?n "File (fresh w) (to_csv t)"]
  have l2: "fs_lookup (fs w2) (resolve w2 folder) = Some (Dir st ?es1)"
    using ru r2 by (simp add: w2_def write_content_def)
  have inv: "\<forall>e\<in>set ?es1. endswith (fst e) ''.csv'' \<longrightarrow> is_file (snd e)"
  proof
    fix e assume "e \<in> set ?es1"
    then have "e = (?n, File (fresh w) (to_csv t)) \<or> e \<in> set es"
      by (rule set_update_cases)
    with Cons.prems(3) show "endswith (fst e) ''.csv'' \<longrightarrow> is_file (snd e)"
      by auto
  qed
  from Cons.prems(2) have "\<forall>k\<in>fst ` set dfs. CHR ''/'' \<notin> set k" by simp
  from Cons.IH [OF l2 this inv] obtain w' where
    "save_csv_loop to_csv w2 folder dfs = Inr w'"
    "pcwd w' = pcwd w2" "stdout w' = stdout w2" "fresh w' = fresh w2"
    "fs_lookup (fs w') (resolve w2 folder) = Some (Dir st (saved_entries (fresh w2) to_csv dfs ?es1))"
    by blast
  with step f2 r2 kt show ?case
    by simp
qed

lemma before_first_dot_csv: "before_first_dot (k @ ''.csv'') = before_first_dot k"
  by (simp add: before_first_dot_def takeWhile_append takeWhile_eq_all_conv [THEN iffD2])

lemma before_first_dot_nodot: "CHR ''.'' \<notin> set k \<Longrightarrow> before_first_dot k = k"
  by (auto simp: before_first_dot_def takeWhile_eq_all_conv)

lemma csv_key_before_first_dot: "csv_key n = before_first_dot n"
  by (simp add: csv_key_def hd_split_on before_first_dot_def)

lemma csv_save_then_load:
  assumes dir: "fs_lookup (fs w) (resolve w folder) = Some (Dir st es)"
    and nocsv: "\<forall>n\<in>fst ` set es. \<not> endswith n ''.csv''"
    and dist: "distinct (map fst dfs)"
    and slash: "\<forall>k\<in>fst ` set dfs. CHR ''/'' \<notin> set k"
    and parse: "\<forall>t\<in>snd ` set dfs. read_csv (to_csv t) = Some (conv t)"
  shows "\<exists>w' dfs'. save_dict_of_dfs_csv to_csv d w dfs folder = Inr w'
      \<and> load_dict_of_dfs_csv read_csv d w' folder = Inr (dfs', print (csv_loaded_message folder) w')
      \<and> fst ` set dfs' = before_first_dot ` fst ` set dfs
      \<and> ((\<forall>k\<in>fst ` set dfs. CHR ''.'' \<notin> set k)
           \<longrightarrow> map_of dfs' = map_of (map (\<lambda>(k, t). (k, conv t)) dfs))"
proof -
  let ?F = "resolve w folder"
  let ?es' = "saved_entries (fresh w) to_csv dfs es"
  let ?names = "map fst ?es'"
  let ?keys = "fst ` set dfs"
  from nocsv have inv: "\<forall>e\<in>set es. endswith (fst e) ''.csv'' \<longrightarrow> is_file (snd e)"
    by auto
  from save_csv_loop_result [OF dir slash inv, of to_csv] obtain w1 where
    sv: "save_csv_loop to_csv w folder dfs = Inr w1" and p1: "pcwd w1 = pcwd w"
    and l1: "fs_lookup (fs w1) ?F = Some (Dir st ?es')"
    by blast
  define w' where "w' = print (csv_saved_message folder) w1"
  from sv have save: "save_dict_of_dfs_csv to_csv d w dfs folder = Inr w'"
    by (simp add: save_dict_of_dfs_csv_def w'_def csv_saved_message_def)
  from p1 have r': "resolve w' folder = ?F"
    by (cases folder) (simp_all add: resolve_def w'_def)
  from l1 have l': "fs_lookup (fs w') ?F = Some (Dir st ?es')"
    by (simp add: w'_def)
  from l' r' have ls: "os_listdir w' folder = Inr ?names"
    by (simp add: os_listdir_def)
  have names: "set ?names = fst ` set es \<union> (\<lambda>k. k @ ''.csv'') ` ?keys"
    using saved_entries_names [of "fresh w" to_csv dfs es] by simp
  have csv_names: "{n \<in> set ?names. endswith n ''.csv''} = (\<lambda>k. k @ ''.csv'') ` ?keys"
    using names nocsv by (auto simp: endswith_csv)
  define tab where "tab = (\<lambda>n. conv (the (map_of dfs (take (length n - 4) n))))"
  have tab: "tab (k @ ''.csv'') = conv t" if "(k, t) \<in> set dfs" for k t
    using that dist by (simp add: tab_def)
  have ok: "\<forall>n\<in>set ?names. endswith n ''.csv'' \<longrightarrow>
     (\<exists>st c. fs_lookup (fs w') (resolve w' (format_path folder n)) = Some (File st c)
        \<and> read_csv c = Some (tab n))"
  proof (intro ballI impI)
    fix n assume "n \<in> set ?names" and "endswith n ''.csv''"
    with csv_names obtain k where k: "k \<in> ?keys" and n: "n = k @ ''.csv''"
      by blast
    from k obtain t where kt: "(k, t) \<in> set dfs" by auto
    from slash k n have "CHR ''/'' \<notin> set n" by auto
    then have "resolve w' (format_path folder n) = resolve w' folder @ [n]"
      using n by (intro resolve_format_path) simp_all
    with r' have "fs_lookup (fs w') (resolve w' (format_path folder n)) = map_of ?es' n"
      using fs_lookup_in_dir [OF l', of n] by simp
    also have "\<dots> = Some (File (fresh w) (to_csv t))"
      unfolding n using dist kt by (rule saved_entries_value)
    finally have 1: "fs_lookup (fs w') (resolve w' (format_path folder n))
        = Some (File (fresh w) (to_csv t))" .
    from parse kt have "read_csv (to_csv t) = Some (conv t)" by force
    with tab [OF kt] n have "read_csv (to_csv t) = Some (tab n)" by simp
    with 1 show "\<exists>st c. fs_lookup (fs w') (resolve w' (format_path folder n)) = Some (File st c)
        \<and> read_csv c = Some (tab n)"
      by blast
  qed
  define dfs' where "dfs' = fold (load_step tab) ?names []"
  from load_csv_loop_ok [OF ok, of "[]"]
  have ld: "load_csv_loop read_csv w' folder ?names [] = Inr dfs'"
    by (simp add: dfs'_def)
  with ls have load: "load_dict_of_dfs_csv read_csv d w' folder
      = Inr (dfs', print (csv_loaded_message folder) w')"
    by (simp add: load_dict_of_dfs_csv_def csv_loaded_message_def)
  from load_csv_loop_keys [OF ld] csv_names
  have "fst ` set dfs' = before_first_dot ` (\<lambda>k. k @ ''.csv'') ` ?keys"
    by simp
  also have "\<dots> = before_first_dot ` ?keys"
    by (simp add: image_image before_first_dot_csv)
  finally have keys: "fst ` set dfs' = before_first_dot ` ?keys" .
  have vals: "map_of dfs' = map_of (map (\<lambda>(k, t). (k, conv t)) dfs)"
    if nodot: "\<forall>k\<in>?keys. CHR ''.'' \<notin> set k"
  proof
    fix k
    have rhs: "map_of (map (\<lambda>(k, t). (k, conv t)) dfs) k = map_option conv (map_of dfs k)"
      by (simp add: map_of_map)
    have nd: "before_first_dot k = k" if "k \<in> ?keys" for k
    proof -
      from nodot that have "CHR ''.'' \<notin> set k" by blast
      then show ?thesis by (rule before_first_dot_nodot)
    qed
    then have same: "before_first_dot ` ?keys = ?keys"
      by force
    show "map_of dfs' k = map_of (map (\<lambda>(k, t). (k, conv t)) dfs) k"
    proof (cases "k \<in> ?keys")
      case False
      with keys same have "k \<notin> fst ` set dfs'" by simp
      then have "map_of dfs' k = None" by (simp add: map_of_eq_None_iff)
      moreover from False have "map_of dfs k = None" by (simp add: map_of_eq_None_iff)
      ultimately show ?thesis using rhs by simp
    next
      case True
      then obtain t where kt: "(k, t) \<in> set dfs" by auto
      let ?n = "k @ ''.csv''"
      from True names have in_names: "?n \<in> set ?names" by blast
      from nd [OF True] have key: "csv_key ?n = k"
        by (simp add: csv_key_before_first_dot before_first_dot_csv)
      have uniq: "\<forall>m\<in>set ?names. endswith m ''.csv'' \<and> csv_key m = csv_key ?n \<longrightarrow> tab m = tab ?n"
      proof (intro ballI impI)
        fix m assume "m \<in> set ?names" and m: "endswith m ''.csv'' \<and> csv_key m = csv_key ?n"
        with csv_names obtain k' where k': "k' \<in> ?keys" and mk: "m = k' @ ''.csv''"
          by blast
        from nd [OF k'] have "csv_key m = k'"
          by (simp add: mk csv_key_before_first_dot before_first_dot_csv)
        with m key have "k' = k" by simp
        with mk show "tab m = tab ?n" by simp
      qed
      from fold_load_step_value [OF in_names endswith_csv uniq, of "[]"] key tab [OF kt]
      have "map_of dfs' k = Some (conv t)"
        by (simp add: dfs'_def)
      moreover from dist kt have "map_of dfs k = Some t" by simp
      ultimately show ?thesis using rhs by simp
    qed
  qed
  from save load keys vals show ?thesis
    by blast
qed

lemma load_csv_keys_of_listing:
  assumes "load_dict_of_dfs_csv read_csv d w folder = Inr (dfs', w')"
  shows "\<exists>names. os_listdir w folder = Inr names
     \<and> fst ` set dfs' = before_first_dot ` {n \<in> set names. endswith n ''.csv''}"
proof -
  from assms obtain names where n: "os_listdir w folder = Inr names"
    and l: "load_csv_loop read_csv w folder names [] = Inr dfs'"
    by (auto simp: load_dict_of_dfs_csv_def split: sum.splits)
  from load_csv_loop_keys [OF l] n show ?thesis by simp
qed

section \<open>The keys of a collection loaded from CSV files\<close>

text \<open>
  C10. \<^verbatim>\<open>load_dict_of_dfs_csv\<close>, where it returns, has loaded exactly the entries of the
  folder whose names end in \<^verbatim>\<open>.csv\<close>, each under the part of its name before the first
  dot. So for a collection (a dictionary: its keys differ) whose keys are file names,
  saved into a directory that held no \<^verbatim>\<open>.csv\<close> entry, where \<^verbatim>\<open>read_csv\<close> accepts what
  \<^verbatim>\<open>to_csv\<close> wrote: saving succeeds, loading succeeds, and the loaded keys are the saved
  keys cut at their first dot.
\<close>

theorem load_dict_of_dfs_csv_keys:
  "(load_dict_of_dfs_csv read_csv d w folder = Inr (dfs', w') \<longrightarrow>
      (\<exists>names. os_listdir w folder = Inr names
         \<and> fst ` set dfs' = before_first_dot ` {n \<in> set names. endswith n ''.csv''}))
   \<and> (fs_lookup (fs w) (resolve w folder) = Some (Dir st es)
        \<and> (\<forall>n\<in>fst ` set es. \<not> endswith n ''.csv'')
        \<and> distinct (map fst dfs) \<and> (\<forall>k\<in>fst ` set dfs. CHR ''/'' \<notin> set k)
        \<and> (\<forall>t\<in>snd ` set dfs. read_csv (to_csv t) \<noteq> None)
      \<longrightarrow> (\<exists>w1 loaded. save_dict_of_dfs_csv to_csv d w dfs folder = Inr w1
             \<and> load_dict_of_dfs_csv read_csv d w1 folder
                 = Inr (loaded, print (csv_loaded_message folder) w1)
             \<and> fst ` set loaded = before_first_dot ` fst ` set dfs))"
proof (intro conjI impI)
  assume "load_dict_of_dfs_csv read_csv d w folder = Inr (dfs', w')"
  then show "\<exists>names. os_listdir w folder = Inr names
         \<and> fst ` set dfs' = before_first_dot ` {n \<in> set names. endswith n ''.csv''}"
    by (rule load_csv_keys_of_listing)
next
  assume a: "fs_lookup (fs w) (resolve w folder) = Some (Dir st es)
        \<and> (\<forall>n\<in>fst ` set es. \<not> endswith n ''.csv'')
        \<and> distinct (map fst dfs) \<and> (\<forall>k\<in>fst ` set dfs. CHR ''/'' \<notin> set k)
        \<and> (\<forall>t\<in>snd ` set dfs. read_csv (to_csv t) \<noteq> None)"
  then have parse: "\<forall>t\<in>snd ` set dfs. read_csv (to_csv t) = Some (the (read_csv (to_csv t)))"
    by auto
  from a have dir: "fs_lookup (fs w) (resolve w folder) = Some (Dir st es)"
    and nocsv: "\<forall>n\<in>fst ` set es. \<not> endswith n ''.csv''"
    and dist: "distinct (map fst dfs)" and slash: "\<forall>k\<in>fst ` set dfs. CHR ''/'' \<notin> set k"
    by blast+
  from csv_save_then_load [OF dir nocsv dist slash parse, of d]
  show "\<exists>w1 loaded. save_dict_of_dfs_csv to_csv d w dfs folder = Inr w1
             \<and> load_dict_of_dfs_csv read_csv d w1 folder
                 = Inr (loaded, print (csv_loaded_message folder) w1)
             \<and> fst ` set loaded = before_first_dot ` fst ` set dfs"
    by blast
qed

theorem load_dict_of_dfs_csv_keys_witness:
  "fs_lookup (fs (ex_world [''g'', ''p''])) (resolve (ex_world [''g'', ''p'']) (Rel [''c'']))
     = Some (Dir st_dir [])
   \<and> distinct (map fst ex_tables)
   \<and> (\<exists>w1 loaded names.
        save_dict_of_dfs_csv id (ex_obj [''g'', ''p'']) (ex_world [''g'', ''p'']) ex_tables (Rel [''c''])
          = Inr w1
        \<and> load_dict_of_dfs_csv Some (ex_obj [''g'', ''p'']) w1 (Rel [''c''])
          = Inr (loaded, print (csv_loaded_message (Rel [''c''])) w1)
        \<and> os_listdir w1 (Rel [''c'']) = Inr names
        \<and> fst ` set loaded = before_first_dot ` {n \<in> set names. endswith n ''.csv''}
        \<and> fst ` set loaded = {''sales''})"
proof -
  let ?w = "ex_world [''g'', ''p'']" and ?d = "ex_obj [''g'', ''p'']"
  note T = load_dict_of_dfs_csv_keys [where d = ?d and folder = "Rel [''c'']" and read_csv = Some]
  have dir: "fs_lookup (fs ?w) (resolve ?w (Rel [''c''])) = Some (Dir st_dir [])"
    by (simp add: resolve_def ex_world_def ex_fs_def)
  have dist: "distinct (map fst ex_tables)"
    by (simp add: ex_tables_def)
  have slash: "\<forall>k\<in>fst ` set ex_tables. CHR ''/'' \<notin> set k"
    by (simp add: ex_tables_def)
  have parse: "\<forall>t\<in>snd ` set ex_tables. Some (id t) \<noteq> None"
    by simp
  from T [where w = ?w and st = st_dir and es = "[]" and dfs = ex_tables and to_csv = id,
          THEN conjunct2] dir dist slash parse
  obtain w1 loaded where s: "save_dict_of_dfs_csv id ?d ?w ex_tables (Rel [''c'']) = Inr w1"
    and l: "load_dict_of_dfs_csv Some ?d w1 (Rel [''c''])
                 = Inr (loaded, print (csv_loaded_message (Rel [''c''])) w1)"
    and k: "fst ` set loaded = before_first_dot ` fst ` set ex_tables"
    by auto
  from T [where w = w1 and dfs' = loaded and w' = "print (csv_loaded_message (Rel [''c''])) w1",
          THEN conjunct1] l
  obtain names where n: "os_listdir w1 (Rel [''c'']) = Inr names"
    "fst ` set loaded = before_first_dot ` {n \<in> set names. endswith n ''.csv''}"
    by blast
  from k have "fst ` set loaded = {''sales''}"
    by (simp add: ex_tables_def before_first_dot_def)
  with dir dist s l n show ?thesis
    by blast
qed

section \<open>Saving and loading again\<close>

lemma before_first_dot_no_dot: "CHR ''.'' \<notin> set (before_first_dot k)"
  by (auto simp: before_first_dot_def dest: set_takeWhileD)

lemma csv_round_trip:
  assumes "fs_lookup (fs w) (resolve w folder) = Some (Dir st es)"
    and "\<forall>n\<in>fst ` set es. \<not> endswith n ''.csv''"
    and "distinct (map fst dfs)"
    and "\<forall>k\<in>fst ` set dfs. CHR ''/'' \<notin> set k"
    and "\<forall>t\<in>snd ` set dfs. read_csv (to_csv t) = Some t"
  shows "\<exists>w1 loaded. save_dict_of_dfs_csv to_csv d w dfs folder = Inr w1
      \<and> load_dict_of_dfs_csv read_csv d w1 folder
          = Inr (loaded, print (csv_loaded_message folder) w1)
      \<and> fst ` set loaded = before_first_dot ` fst ` set dfs
      \<and> ((\<forall>k\<in>fst ` set dfs. CHR ''.'' \<notin> set k) \<longrightarrow> map_of loaded = map_of dfs)
      \<and> ((\<exists>k\<in>fst ` set dfs. CHR ''.'' \<in> set k) \<longrightarrow> map_of loaded \<noteq> map_of dfs)"
proof -
  from assms(5) have parse: "\<forall>t\<in>snd ` set dfs. read_csv (to_csv t) = Some ((\<lambda>t. t) t)"
    by simp
  from csv_save_then_load [OF assms(1,2,3,4) parse, of d]
  obtain w1 loaded where sv: "save_dict_of_dfs_csv to_csv d w dfs folder = Inr w1"
    and ld: "load_dict_of_dfs_csv read_csv d w1 folder
               = Inr (loaded, print (csv_loaded_message folder) w1)"
    and keys: "fst ` set loaded = before_first_dot ` fst ` set dfs"
    and same: "(\<forall>k\<in>fst ` set dfs. CHR ''.'' \<notin> set k)
                 \<longrightarrow> map_of loaded = map_of (map (\<lambda>(k, t). (k, t)) dfs)"
    by (elim exE conjE) (rule that)
  from same have same': "(\<forall>k\<in>fst ` set dfs. CHR ''.'' \<notin> set k) \<longrightarrow> map_of loaded = map_of dfs"
    by (simp add: case_prod_unfold)
  have differ: "map_of loaded \<noteq> map_of dfs" if "\<exists>k\<in>fst ` set dfs. CHR ''.'' \<in> set k"
  proof -
    from that obtain k where k: "k \<in> fst ` set dfs" and dot: "CHR ''.'' \<in> set k"
      by blast
    from k have "map_of dfs k \<noteq> None"
      by (simp add: map_of_eq_None_iff)
    moreover have "k \<notin> fst ` set loaded"
    proof
      assume "k \<in> fst ` set loaded"
      with keys obtain k' where "k = before_first_dot k'"
        by blast
      with dot before_first_dot_no_dot [of k'] show False
        by simp
    qed
    then have "map_of loaded k = None"
      by (simp add: map_of_eq_None_iff)
    ultimately have "map_of loaded k \<noteq> map_of dfs k"
      by auto
    then show ?thesis
      by (rule contrapos_nn) (rule fun_cong)
  qed
  then have differ': "(\<exists>k\<in>fst ` set dfs. CHR ''.'' \<in> set k) \<longrightarrow> map_of loaded \<noteq> map_of dfs"
    by (rule impI)
  from sv ld keys same' differ' show ?thesis
    by (intro exI conjI)
qed

lemmas csv_eval =
  save_dict_of_dfs_csv_def load_dict_of_dfs_csv_def format_path_def path_components_def
  open_w_def open_r_def write_content_def resolve_def os_listdir_def endswith_def
  suffix_to_prefix csv_saved_message_def csv_loaded_message_def path_str_def print_def

lemmas file_eval =
  open_w_def open_r_def write_content_def resolve_def os_path_join_def print_def

text \<open>
  The two CSV methods at the collection with the one key \<^verbatim>\<open>sales.2024\<close>, in \<^verbatim>\<open>/g/p\<close> with
  the empty directory \<^verbatim>\<open>c\<close>, where \<^verbatim>\<open>read_csv\<close> returns just what \<^verbatim>\<open>to_csv\<close> was given:
  the table goes to \<^verbatim>\<open>c/sales.2024.csv\<close> and is loaded under the key \<^verbatim>\<open>sales\<close>.
\<close>

lemma csv_dotted_key_evaluation:
  "save_dict_of_dfs_csv id (ex_obj [''g'', ''p'']) (ex_world [''g'', ''p'']) ex_tables (Rel [''c''])
     = Inr (print (csv_saved_message (Rel [''c''])) ((ex_world [''g'', ''p''])\<lparr>fs := ex_csv_fs\<rparr>))
   \<and> load_dict_of_dfs_csv Some (ex_obj [''g'', ''p''])
        (print (csv_saved_message (Rel [''c''])) ((ex_world [''g'', ''p''])\<lparr>fs := ex_csv_fs\<rparr>))
        (Rel [''c''])
     = Inr ([(''sales'', ''id,amount'')],
            print (csv_loaded_message (Rel [''c'']))
              (print (csv_saved_message (Rel [''c''])) ((ex_world [''g'', ''p''])\<lparr>fs := ex_csv_fs\<rparr>)))"
proof -
  have s: "save_dict_of_dfs_csv id (ex_obj [''g'', ''p'']) (ex_world [''g'', ''p'']) ex_tables (Rel [''c''])
     = Inr (print (csv_saved_message (Rel [''c''])) ((ex_world [''g'', ''p''])\<lparr>fs := ex_csv_fs\<rparr>))"
    by (simp add: csv_eval ex_tables_def ex_world_def ex_fs_def ex_csv_fs_def)
  have l: "load_dict_of_dfs_csv Some (ex_obj [''g'', ''p''])
        (print (csv_saved_message (Rel [''c''])) ((ex_world [''g'', ''p''])\<lparr>fs := ex_csv_fs\<rparr>))
        (Rel [''c''])
     = Inr ([(''sales'', ''id,amount'')],
            print (csv_loaded_message (Rel [''c'']))
              (print (csv_saved_message (Rel [''c''])) ((ex_world [''g'', ''p''])\<lparr>fs := ex_csv_fs\<rparr>)))"
    by (simp add: csv_eval ex_world_def ex_csv_fs_def)
  show ?thesis
    using s l by simp
qed

text \<open>
  C8. What loading returns right after saving under the same name, where the library
  reads back what it wrote. \<^verbatim>\<open>load_json\<close> after \<^verbatim>\<open>save_json\<close> and \<^verbatim>\<open>load_pickle\<close> after
  \<^verbatim>\<open>save_pickle\<close> return the value saved, and \<^verbatim>\<open>load_dict_of_dfs_pickle\<close> returns the
  collection saved. \<^verbatim>\<open>load_dict_of_dfs_hdf5\<close> returns the same dictionary as was saved,
  whatever the order in which the store reports its keys, where no key begins or ends
  with a slash. \<^verbatim>\<open>load_dict_of_dfs_csv\<close>, for a folder that held no \<^verbatim>\<open>.csv\<close> entry and keys
  that are file names, returns a collection whose keys are the saved keys cut at their
  first dot: it is the dictionary saved where no key has a dot in it, and it is another
  dictionary as soon as one key has a dot, the table of the key \<^verbatim>\<open>sales.2024\<close> coming
  back under \<^verbatim>\<open>sales\<close>. The keys of a collection differ from one another.
\<close>

theorem save_then_load_round_trip:
  "(save_json json_dump d w x fname = Inr w1 \<and> round_trips json_dump json_load x
      \<longrightarrow> load_json json_load d w1 fname = Inr (Some x))
   \<and> (save_pickle pickle_dump d w y fname = Inr w2 \<and> round_trips pickle_dump pickle_load y
      \<longrightarrow> load_pickle pickle_load d w2 fname = Inr (Some y))
   \<and> (save_dict_of_dfs_pickle dfs_dump d w dfs fname = Inr w3 \<and> round_trips dfs_dump dfs_load dfs
      \<longrightarrow> load_dict_of_dfs_pickle dfs_load d w3 fname
           = Inr (Some dfs, print (''DataFrames loaded from pickle object '' @ fname @ '' successfully.'') w3))
   \<and> (save_dict_of_dfs_hdf5 hdf_dump d w dfs fname = Inr w4 \<and> hdf_round_trips hdf_dump hdf_items dfs
        \<and> distinct (map fst dfs) \<and> (\<forall>k\<in>fst ` set dfs. no_slash_ends k)
      \<longrightarrow> (\<exists>loaded. load_dict_of_dfs_hdf5 hdf_items d w4 fname
               = Inr (loaded, print (''DataFrames loaded from HDF5 file '' @ fname @ '' successfully.'') w4)
             \<and> map_of loaded = map_of dfs))
   \<and> (fs_lookup (fs w) (resolve w folder) = Some (Dir st es)
        \<and> (\<forall>n\<in>fst ` set es. \<not> endswith n ''.csv'')
        \<and> distinct (map fst dfs)
        \<and> (\<forall>k\<in>fst ` set dfs. CHR ''/'' \<notin> set k)
        \<and> (\<forall>t\<in>snd ` set dfs. read_csv (to_csv t) = Some t)
      \<longrightarrow> (\<exists>w5 loaded. save_dict_of_dfs_csv to_csv d w dfs folder = Inr w5
             \<and> load_dict_of_dfs_csv read_csv d w5 folder
                 = Inr (loaded, print (csv_loaded_message folder) w5)
             \<and> fst ` set loaded = before_first_dot ` fst ` set dfs
             \<and> ((\<forall>k\<in>fst ` set dfs. CHR ''.'' \<notin> set k) \<longrightarrow> map_of loaded = map_of dfs)
             \<and> ((\<exists>k\<in>fst ` set dfs. CHR ''.'' \<in> set k) \<longrightarrow> map_of loaded \<noteq> map_of dfs)))"
proof (intro conjI impI)
  assume h: "save_json json_dump d w x fname = Inr w1 \<and> round_trips json_dump json_load x"
  show "load_json json_load d w1 fname = Inr (Some x)"
    by (rule json_round_trip [OF h [THEN conjunct1] h [THEN conjunct2]])
next
  assume h: "save_pickle pickle_dump d w y fname = Inr w2 \<and> round_trips pickle_dump pickle_load y"
  show "load_pickle pickle_load d w2 fname = Inr (Some y)"
    by (rule pickle_round_trip [OF h [THEN conjunct1] h [THEN conjunct2]])
next
  assume h: "save_dict_of_dfs_pickle dfs_dump d w dfs fname = Inr w3 \<and> round_trips dfs_dump dfs_load dfs"
  show "load_dict_of_dfs_pickle dfs_load d w3 fname
           = Inr (Some dfs, print (''DataFrames loaded from pickle object '' @ fname @ '' successfully.'') w3)"
    by (rule dfs_pickle_round_trip [OF h [THEN conjunct1] h [THEN conjunct2]])
next
  assume h: "save_dict_of_dfs_hdf5 hdf_dump d w dfs fname = Inr w4 \<and> hdf_round_trips hdf_dump hdf_items dfs
        \<and> distinct (map fst dfs) \<and> (\<forall>k\<in>fst ` set dfs. no_slash_ends k)"
  show "\<exists>loaded. load_dict_of_dfs_hdf5 hdf_items d w4 fname
               = Inr (loaded, print (''DataFrames loaded from HDF5 file '' @ fname @ '' successfully.'') w4)
             \<and> map_of loaded = map_of dfs"
    by (rule hdf5_round_trip [OF h [THEN conjunct1] h [THEN conjunct2, THEN conjunct1]
          h [THEN conjunct2, THEN conjunct2, THEN conjunct1]
          h [THEN conjunct2, THEN conjunct2, THEN conjunct2]])
next
  assume h: "fs_lookup (fs w) (resolve w folder) = Some (Dir st es)
        \<and> (\<forall>n\<in>fst ` set es. \<not> endswith n ''.csv'')
        \<and> distinct (map fst dfs)
        \<and> (\<forall>k\<in>fst ` set dfs. CHR ''/'' \<notin> set k)
        \<and> (\<forall>t\<in>snd ` set dfs. read_csv (to_csv t) = Some t)"
  show "\<exists>w5 loaded. save_dict_of_dfs_csv to_csv d w dfs folder = Inr w5
             \<and> load_dict_of_dfs_csv read_csv d w5 folder
                 = Inr (loaded, print (csv_loaded_message folder) w5)
             \<and> fst ` set loaded = before_first_dot ` fst ` set dfs
             \<and> ((\<forall>k\<in>fst ` set dfs. CHR ''.'' \<notin> set k) \<longrightarrow> map_of loaded = map_of dfs)
             \<and> ((\<exists>k\<in>fst ` set dfs. CHR ''.'' \<in> set k) \<longrightarrow> map_of loaded \<noteq> map_of dfs)"
    by (rule csv_round_trip [OF h [THEN conjunct1] h [THEN conjunct2, THEN conjunct1]
          h [THEN conjunct2, THEN conjunct2, THEN conjunct1]
          h [THEN conjunct2, THEN conjunct2, THEN conjunct2, THEN conjunct1]
          h [THEN conjunct2, THEN conjunct2, THEN conjunct2, THEN conjunct2]])
qed

theorem save_then_load_round_trip_witness:
  "(\<exists>w1. save_json Some (ex_obj [''g'', ''p'']) (ex_world [''g'', ''p'']) ''[1, 2]'' ''v.dat'' = Inr w1
        \<and> load_json Some (ex_obj [''g'', ''p'']) w1 ''v.dat'' = Inr (Some ''[1, 2]''))
   \<and> (\<exists>w2. save_pickle Some (ex_obj [''g'', ''p'']) (ex_world [''g'', ''p'']) ''[1, 2]'' ''v.dat'' = Inr w2
        \<and> load_pickle Some (ex_obj [''g'', ''p'']) w2 ''v.dat'' = Inr (Some ''[1, 2]''))
   \<and> (\<exists>w3. save_dict_of_dfs_pickle (\<lambda>dfs. Some ''blob'') (ex_obj [''g'', ''p''])
              (ex_world [''g'', ''p'']) ex_plain_tables ''v.dat'' = Inr w3
        \<and> (\<exists>w3'. load_dict_of_dfs_pickle (\<lambda>s. Some ex_plain_tables) (ex_obj [''g'', ''p'']) w3 ''v.dat''
                      = Inr (Some ex_plain_tables, w3')))
   \<and> (\<exists>w4 loaded. save_dict_of_dfs_hdf5 (\<lambda>dfs. Some ''store'') (ex_obj [''g'', ''p''])
              (ex_world [''g'', ''p'']) ex_plain_tables ''v.dat'' = Inr w4
        \<and> (\<exists>w4'. load_dict_of_dfs_hdf5
                      (\<lambda>s. Some [(''/costs'', ''id,cost''), (''/sales'', ''id,amount'')])
                      (ex_obj [''g'', ''p'']) w4 ''v.dat'' = Inr (loaded, w4'))
        \<and> map_of loaded = map_of ex_plain_tables)
   \<and> (\<exists>w5 loaded. save_dict_of_dfs_csv id (ex_obj [''g'', ''p'']) (ex_world [''g'', ''p''])
                     ex_plain_tables (Rel [''c'']) = Inr w5
        \<and> (\<exists>w5'. load_dict_of_dfs_csv Some (ex_obj [''g'', ''p'']) w5 (Rel [''c'']) = Inr (loaded, w5'))
        \<and> map_of loaded = map_of ex_plain_tables)
   \<and> (\<exists>w6. save_dict_of_dfs_csv id (ex_obj [''g'', ''p'']) (ex_world [''g'', ''p''])
              ex_tables (Rel [''c'']) = Inr w6
        \<and> (\<exists>w6'. load_dict_of_dfs_csv Some (ex_obj [''g'', ''p'']) w6 (Rel [''c''])
                      = Inr ([(''sales'', ''id,amount'')], w6')))
   \<and> map_of [(''sales'', ''id,amount'')] ''sales.2024'' = None
   \<and> map_of ex_tables ''sales.2024'' = Some ''id,amount''"
proof -
  let ?d = "ex_obj [''g'', ''p'']" and ?w = "ex_world [''g'', ''p'']"
  note T = save_then_load_round_trip [where d = ?d and w = ?w and fname = "''v.dat''"
      and dfs = ex_plain_tables and folder = "Rel [''c'']"]
  have rt: "round_trips Some Some ''[1, 2]''"
    by (simp add: round_trips_def)
  have "\<exists>w1. save_json Some ?d ?w ''[1, 2]'' ''v.dat'' = Inr w1"
    by (simp add: save_json_def file_eval ex_world_def ex_obj_def ex_fs_def)
  then obtain w1 where s1: "save_json Some ?d ?w ''[1, 2]'' ''v.dat'' = Inr w1" ..
  from T [where json_load = Some, THEN conjunct1, rule_format, OF conjI [OF s1 rt]]
  have l1: "load_json Some ?d w1 ''v.dat'' = Inr (Some ''[1, 2]'')" .
  have "\<exists>w2. save_pickle Some ?d ?w ''[1, 2]'' ''v.dat'' = Inr w2"
    by (simp add: save_pickle_def file_eval ex_world_def ex_obj_def ex_fs_def)
  then obtain w2 where s2: "save_pickle Some ?d ?w ''[1, 2]'' ''v.dat'' = Inr w2" ..
  from T [where pickle_load = Some, THEN conjunct2, THEN conjunct1, rule_format, OF conjI [OF s2 rt]]
  have l2: "load_pickle Some ?d w2 ''v.dat'' = Inr (Some ''[1, 2]'')" .
  have rt3: "round_trips (\<lambda>dfs. Some ''blob'') (\<lambda>s. Some ex_plain_tables) ex_plain_tables"
    by (simp add: round_trips_def)
  have "\<exists>w3. save_dict_of_dfs_pickle (\<lambda>dfs. Some ''blob'') ?d ?w ex_plain_tables ''v.dat'' = Inr w3"
    by (simp add: save_dict_of_dfs_pickle_def file_eval ex_world_def ex_obj_def ex_fs_def)
  then obtain w3 where
    s3: "save_dict_of_dfs_pickle (\<lambda>dfs. Some ''blob'') ?d ?w ex_plain_tables ''v.dat'' = Inr w3" ..
  from T [THEN conjunct2, THEN conjunct2, THEN conjunct1, rule_format, OF conjI [OF s3 rt3]]
  have l3: "\<exists>w3'. load_dict_of_dfs_pickle (\<lambda>s. Some ex_plain_tables) ?d w3 ''v.dat''
              = Inr (Some ex_plain_tables, w3')"
    by simp
  have rt4: "hdf_round_trips (\<lambda>dfs. Some ''store'')
               (\<lambda>s. Some [(''/costs'', ''id,cost''), (''/sales'', ''id,amount'')]) ex_plain_tables"
    by (simp add: hdf_round_trips_def ex_plain_tables_def insert_commute)
  have dist: "distinct (map fst ex_plain_tables)"
    by (simp add: ex_plain_tables_def)
  have ends: "\<forall>k\<in>fst ` set ex_plain_tables. no_slash_ends k"
    by (simp add: ex_plain_tables_def no_slash_ends_def)
  have "\<exists>w4. save_dict_of_dfs_hdf5 (\<lambda>dfs. Some ''store'') ?d ?w ex_plain_tables ''v.dat'' = Inr w4"
    by (simp add: save_dict_of_dfs_hdf5_def file_eval ex_world_def ex_obj_def ex_fs_def)
  then obtain w4 where
    s4: "save_dict_of_dfs_hdf5 (\<lambda>dfs. Some ''store'') ?d ?w ex_plain_tables ''v.dat'' = Inr w4" ..
  from T [THEN conjunct2, THEN conjunct2, THEN conjunct2, THEN conjunct1, rule_format,
          OF conjI [OF s4 conjI [OF rt4 conjI [OF dist ends]]]]
  obtain loaded4 where
    l4: "load_dict_of_dfs_hdf5 (\<lambda>s. Some [(''/costs'', ''id,cost''), (''/sales'', ''id,amount'')])
           ?d w4 ''v.dat''
           = Inr (loaded4, print (''DataFrames loaded from HDF5 file '' @ ''v.dat'' @ '' successfully.'') w4)"
    and m4: "map_of loaded4 = map_of ex_plain_tables"
    by (elim exE conjE) (rule that)
  from l4 have l4': "\<exists>w4'. load_dict_of_dfs_hdf5
       (\<lambda>s. Some [(''/costs'', ''id,cost''), (''/sales'', ''id,amount'')]) ?d w4 ''v.dat''
       = Inr (loaded4, w4')"
    by simp
  have dir: "fs_lookup (fs ?w) (resolve ?w (Rel [''c''])) = Some (Dir st_dir [])"
    by (simp add: resolve_def ex_world_def ex_fs_def)
  have nocsv: "\<forall>n\<in>fst ` set ([] :: (name \<times> node) list). \<not> endswith n ''.csv''"
    by simp
  have slash: "\<forall>k\<in>fst ` set ex_plain_tables. CHR ''/'' \<notin> set k"
    by (simp add: ex_plain_tables_def)
  have nodot: "\<forall>k\<in>fst ` set ex_plain_tables. CHR ''.'' \<notin> set k"
    by (simp add: ex_plain_tables_def)
  have parse: "\<forall>t\<in>snd ` set ex_plain_tables. Some (id t) = Some t"
    by simp
  from T [where to_csv = id and read_csv = Some, THEN conjunct2, THEN conjunct2, THEN conjunct2,
          THEN conjunct2, rule_format,
          OF conjI [OF dir conjI [OF nocsv conjI [OF dist conjI [OF slash parse]]]]]
  obtain w5 loaded where s5: "save_dict_of_dfs_csv id ?d ?w ex_plain_tables (Rel [''c'']) = Inr w5"
    and l5: "load_dict_of_dfs_csv Some ?d w5 (Rel [''c''])
               = Inr (loaded, print (csv_loaded_message (Rel [''c''])) w5)"
    and k5: "fst ` set loaded = before_first_dot ` fst ` set ex_plain_tables"
    and i5: "(\<forall>k\<in>fst ` set ex_plain_tables. CHR ''.'' \<notin> set k)
               \<longrightarrow> map_of loaded = map_of ex_plain_tables"
    and j5: "(\<exists>k\<in>fst ` set ex_plain_tables. CHR ''.'' \<in> set k)
               \<longrightarrow> map_of loaded \<noteq> map_of ex_plain_tables"
    by (elim exE conjE) (rule that)
  from i5 nodot have m5: "map_of loaded = map_of ex_plain_tables"
    by (rule mp)
  from l5 have l5': "\<exists>w5'. load_dict_of_dfs_csv Some ?d w5 (Rel [''c'']) = Inr (loaded, w5')"
    by simp
  have dist6: "distinct (map fst ex_tables)"
    by (simp add: ex_tables_def)
  have slash6: "\<forall>k\<in>fst ` set ex_tables. CHR ''/'' \<notin> set k"
    by (simp add: ex_tables_def)
  have dot6: "\<exists>k\<in>fst ` set ex_tables. CHR ''.'' \<in> set k"
    by (simp add: ex_tables_def)
  have parse6: "\<forall>t\<in>snd ` set ex_tables. Some (id t) = Some t"
    by simp
  from save_then_load_round_trip [where d = ?d and w = ?w and dfs = ex_tables
          and folder = "Rel [''c'']" and to_csv = id and read_csv = Some,
          THEN conjunct2, THEN conjunct2, THEN conjunct2, THEN conjunct2, rule_format,
          OF conjI [OF dir conjI [OF nocsv conjI [OF dist6 conjI [OF slash6 parse6]]]]]
  obtain w6 loaded6 where s6: "save_dict_of_dfs_csv id ?d ?w ex_tables (Rel [''c'']) = Inr w6"
    and l6: "load_dict_of_dfs_csv Some ?d w6 (Rel [''c''])
               = Inr (loaded6, print (csv_loaded_message (Rel [''c''])) w6)"
    and k6: "fst ` set loaded6 = before_first_dot ` fst ` set ex_tables"
    and j6: "(\<forall>k\<in>fst ` set ex_tables. CHR ''.'' \<notin> set k) \<longrightarrow> map_of loaded6 = map_of ex_tables"
    and i6: "(\<exists>k\<in>fst ` set ex_tables. CHR ''.'' \<in> set k) \<longrightarrow> map_of loaded6 \<noteq> map_of ex_tables"
    by (elim exE conjE) (rule that)
  from i6 dot6 have ne6: "map_of loaded6 \<noteq> map_of ex_tables"
    by (rule mp)
  from s6 csv_dotted_key_evaluation
  have w6: "w6 = print (csv_saved_message (Rel [''c''])) (?w\<lparr>fs := ex_csv_fs\<rparr>)"
    by simp
  from l6 csv_dotted_key_evaluation have "loaded6 = [(''sales'', ''id,amount'')]"
    unfolding w6 by simp
  with l6 have l6': "\<exists>w6'. load_dict_of_dfs_csv Some ?d w6 (Rel [''c''])
                        = Inr ([(''sales'', ''id,amount'')], w6')"
    by simp
  have v6: "map_of [(''sales'', ''id,amount'')] ''sales.2024'' = None"
    "map_of ex_tables ''sales.2024'' = Some ''id,amount''"
    by (simp_all add: ex_tables_def)
  from s1 l1 have c1: "\<exists>w1. save_json Some ?d ?w ''[1, 2]'' ''v.dat'' = Inr w1
        \<and> load_json Some ?d w1 ''v.dat'' = Inr (Some ''[1, 2]'')"
    by (intro exI conjI)
  from s2 l2 have c2: "\<exists>w2. save_pickle Some ?d ?w ''[1, 2]'' ''v.dat'' = Inr w2
        \<and> load_pickle Some ?d w2 ''v.dat'' = Inr (Some ''[1, 2]'')"
    by (intro exI conjI)
  from s3 l3 have c3: "\<exists>w3. save_dict_of_dfs_pickle (\<lambda>dfs. Some ''blob'') ?d ?w ex_plain_tables ''v.dat'' = Inr w3
        \<and> (\<exists>w3'. load_dict_of_dfs_pickle (\<lambda>s. Some ex_plain_tables) ?d w3 ''v.dat''
                      = Inr (Some ex_plain_tables, w3'))"
    by blast
  from s4 l4' m4 have c4: "\<exists>w4 loaded. save_dict_of_dfs_hdf5 (\<lambda>dfs. Some ''store'') ?d ?w
              ex_plain_tables ''v.dat'' = Inr w4
        \<and> (\<exists>w4'. load_dict_of_dfs_hdf5
                      (\<lambda>s. Some [(''/costs'', ''id,cost''), (''/sales'', ''id,amount'')])
                      ?d w4 ''v.dat'' = Inr (loaded, w4'))
        \<and> map_of loaded = map_of ex_plain_tables"
    by blast
  from s5 l5' m5 have c5: "\<exists>w5 loaded. save_dict_of_dfs_csv id ?d ?w ex_plain_tables (Rel [''c'']) = Inr w5
        \<and> (\<exists>w5'. load_dict_of_dfs_csv Some ?d w5 (Rel [''c'']) = Inr (loaded, w5'))
        \<and> map_of loaded = map_of ex_plain_tables"
    by blast
  from s6 l6' have c6: "\<exists>w6. save_dict_of_dfs_csv id ?d ?w ex_tables (Rel [''c'']) = Inr w6
        \<and> (\<exists>w6'. load_dict_of_dfs_csv Some ?d w6 (Rel [''c''])
                      = Inr ([(''sales'', ''id,amount'')], w6'))"
    by blast
  from c1 c2 c3 c4 c5 c6 v6 show ?thesis
    by (intro conjI)
qed

end
